theory Spec2Isabelle
  imports Main "HOL-Library.Word" "HOL-Library.Multiset"
begin

unbundle bit_operations_syntax

text \<open>
  The FlashGraph engine and its sparse-matrix layer: the page-aligned requests of the
  compute tasks, the index of block-row offsets, transposition, the sequential and the
  Hilbert execution order of blocks, and the k-core application with its queries and its
  command line.  The definitions follow the C++ sources function by function; what the
  sources only declare is modelled from the specification and marked as such.
\<close>

section \<open>Page-aligned I/O requests of the compute tasks (matrix/sparse\_matrix.h, .cpp)\<close>

text \<open>
  A \<open>matrix_io\<close> names a byte range of the matrix file: \<open>io.get_loc()\<close> gives the file id
  and the offset (an \<open>off_t\<close>), \<open>io.get_size()\<close> the number of bytes, and the I/O covers
  \<open>io.get_num_rows()\<close> rows starting at row \<open>io.get_top_left().get_row_idx()\<close>.
  Offsets and sizes are modelled as \<open>int\<close>: they are 64-bit in the code and a buffer of
  the requested size is allocated with \<open>valloc\<close>, so they stay far away from wrap-around.
\<close>

record matrix_io =
  io_file_id :: int
  io_offset :: int
  io_size :: int
  io_num_rows :: nat
  io_top_row :: nat

text \<open>
  Modelled from the spec: the macros \<open>ROUND_PAGE\<close> and \<open>ROUNDUP_PAGE\<close> and the constant
  \<open>PAGE_SIZE\<close> come from headers of the I/O library that are not part of the sources.
  The spec describes them as ``round down start, round up end'' to page boundaries.
  The page size is a parameter \<open>P\<close>.
\<close>

definition ROUND_PAGE :: "int \<Rightarrow> int \<Rightarrow> int" where
  "ROUND_PAGE P x = (x div P) * P"

definition ROUNDUP_PAGE :: "int \<Rightarrow> int \<Rightarrow> int" where
  "ROUNDUP_PAGE P x = ((x + P - 1) div P) * P"

datatype access_method = READ | WRITE

record io_request =
  req_file_id :: int
  req_offset :: int
  req_size :: int
  req_access :: access_method

text \<open>The fields the constructor of \<open>fg_row_compute_task\<close> computes (the buffer itself is
  a fresh allocation of \<open>buf_size\<close> bytes).\<close>

record fg_row_compute_task =
  fg_io :: matrix_io
  fg_off :: int
  fg_buf_size :: int

definition fg_row_compute_task :: "int \<Rightarrow> matrix_io \<Rightarrow> fg_row_compute_task" where
  "fg_row_compute_task P io =
     (let orig_off = io_offset io;
          off = ROUND_PAGE P orig_off;
          buf_size = ROUNDUP_PAGE P (orig_off - off + io_size io)
      in \<lparr>fg_io = io, fg_off = off, fg_buf_size = buf_size\<rparr>)"

definition fg_get_request :: "fg_row_compute_task \<Rightarrow> io_request" where
  "fg_get_request t =
     \<lparr>req_file_id = io_file_id (fg_io t), req_offset = fg_off t,
      req_size = fg_buf_size t, req_access = READ\<rparr>"

section \<open>The index of a 2D-partitioned sparse matrix (matrix/sparse\_matrix\_format.cpp)\<close>

text \<open>
  A \<open>sparse_matrix_index\<close> is a header followed in the same piece of memory by the array
  \<open>offs\<close>: \<open>create\<close> places the object in a buffer of \<open>get_size(offs.size())\<close> bytes and
  fills the array, \<open>load\<close> reads a whole file into a buffer and takes the buffer for the
  object.  The model keeps the header and the offsets the buffer really holds.  Of the
  header only the number of block rows matters here: \<open>hdr_num_block_rows\<close> is the value of
  \<open>header.get_2d_block_size().cal_num_block_rows(header.get_num_rows())\<close>.
\<close>

record matrix_header =
  hdr_num_block_rows :: nat

record sparse_matrix_index =
  header :: matrix_header
  offs :: "int list"

definition get_num_block_rows :: "sparse_matrix_index \<Rightarrow> nat" where
  "get_num_block_rows ix = hdr_num_block_rows (header ix)"

text \<open>
  Modelled from the spec: \<open>get_num_entries\<close> is declared in the header file
  sparse\_matrix\_format.h, which is not among the sources, and the spec does not describe
  it.  The object holds nothing but its header and the array, \<open>create\<close> demands one offset
  per block row and one more, and \<open>dump\<close> writes \<open>get_size(get_num_entries())\<close> bytes of
  the object: the number of entries is the number of block rows of the header plus one.
\<close>

definition get_num_entries :: "sparse_matrix_index \<Rightarrow> nat" where
  "get_num_entries ix = get_num_block_rows ix + 1"

text \<open>
  The result of \<open>get_block_row_off\<close> is the offset returned with what was logged at level
  \<open>error\<close>.  A read of \<open>offs[idx]\<close> past the end of the buffer is undefined behaviour in
  the code and is the result \<open>Out_of_bounds\<close> here.
\<close>

datatype off_result = Off int "string list" | Out_of_bounds

definition get_block_row_off :: "sparse_matrix_index \<Rightarrow> nat \<Rightarrow> off_result" where
  "get_block_row_off ix idx =
     (if idx \<ge> get_num_entries ix then Off (- 1) [''get_block_row_off: out of range.'']
      else if idx < length (offs ix) then Off (offs ix ! idx) []
      else Out_of_bounds)"

text \<open>\<open>block_sparse_matrix::get_block_row_offs\<close>: one lookup per requested block row.\<close>

definition get_block_row_offs :: "sparse_matrix_index \<Rightarrow> nat list \<Rightarrow> off_result list" where
  "get_block_row_offs ix block_row_idxs = map (get_block_row_off ix) block_row_idxs"

text \<open>\<open>sparse_matrix_index::create\<close>: the pointer returned (\<open>None\<close> is the empty pointer) and
  what was logged.  \<open>alloc_ok\<close> says whether \<open>posix_memalign\<close> succeeds.\<close>

definition create ::
  "bool \<Rightarrow> matrix_header \<Rightarrow> int list \<Rightarrow> sparse_matrix_index option \<times> string list" where
  "create alloc_ok hdr offsets =
     (if length offsets \<noteq> hdr_num_block_rows hdr + 1
      then (None, [''There are an incorrect number of offsets''])
      else if \<not> alloc_ok then (None, [''Can not allocate memory''])
      else (Some \<lparr>header = hdr, offs = offsets\<rparr>, []))"

text \<open>
  \<open>sparse_matrix_index::load\<close>: the file cannot be opened, or it is empty and \<open>fread\<close>
  returns 0, or its bytes are taken for the index as they are: the header it starts with
  and the offsets that follow, however many the file holds.
\<close>

datatype index_file = No_file | Empty_file | Index_bytes matrix_header "int list"

definition load :: "index_file \<Rightarrow> sparse_matrix_index option \<times> string list" where
  "load idx_file =
     (case idx_file of
        No_file \<Rightarrow> (None, [''can not open''])
      | Empty_file \<Rightarrow> (None, [''can not read''])
      | Index_bytes hdr stored \<Rightarrow> (Some \<lparr>header = hdr, offs = stored\<rparr>, []))"

section \<open>Transposing a sparse matrix (matrix/sparse\_matrix.h, .cpp)\<close>

text \<open>The base class keeps the shape; \<open>sparse_matrix::transpose\<close> swaps the two counts.\<close>

record sparse_matrix_base =
  nrows :: nat
  ncols :: nat
  symmetric :: bool

definition base_transpose :: "sparse_matrix_base \<Rightarrow> sparse_matrix_base" where
  "base_transpose m = (let tmp = nrows m in m\<lparr>nrows := ncols m, ncols := tmp\<rparr>)"

text \<open>
  The four subclasses.  \<open>'b\<close> stands for the row-block index of the FlashGraph format
  (a vector of \<open>row_block\<close>) and \<open>'m\<close> for what a \<open>block_sparse_matrix\<close> holds besides its
  shape (its 2D index and its I/O factory).
\<close>

datatype ('b, 'm) sparse_matrix =
    Fg_sparse_sym_matrix sparse_matrix_base 'b
  | Fg_sparse_asym_matrix sparse_matrix_base 'b 'b bool
  | Block_sparse_matrix sparse_matrix_base 'm
  | Block_sparse_asym_matrix sparse_matrix_base "sparse_matrix_base \<times> 'm" "sparse_matrix_base \<times> 'm"

fun transpose_matrix :: "('b, 'm) sparse_matrix \<Rightarrow> ('b, 'm) sparse_matrix" where
  "transpose_matrix (Fg_sparse_sym_matrix b blocks) = Fg_sparse_sym_matrix b blocks"
| "transpose_matrix (Fg_sparse_asym_matrix b out_blocks in_blocks transposed) =
     Fg_sparse_asym_matrix (base_transpose b) out_blocks in_blocks (\<not> transposed)"
| "transpose_matrix (Block_sparse_matrix b ix) = Block_sparse_matrix b ix"
| "transpose_matrix (Block_sparse_asym_matrix b mat t_mat) =
     (let tmp = mat in Block_sparse_asym_matrix (base_transpose b) t_mat tmp)"

fun base_of :: "('b, 'm) sparse_matrix \<Rightarrow> sparse_matrix_base" where
  "base_of (Fg_sparse_sym_matrix b _) = b"
| "base_of (Fg_sparse_asym_matrix b _ _ _) = b"
| "base_of (Block_sparse_matrix b _) = b"
| "base_of (Block_sparse_asym_matrix b _ _) = b"

definition get_num_rows :: "('b, 'm) sparse_matrix \<Rightarrow> nat" where
  "get_num_rows m = nrows (base_of m)"

definition get_num_cols :: "('b, 'm) sparse_matrix \<Rightarrow> nat" where
  "get_num_cols m = ncols (base_of m)"

text \<open>The block rows the I/O generators read: the asymmetric FlashGraph matrix picks the
  in-edge index when it is transposed (\<open>init_io_gens\<close>).\<close>

fun io_blocks :: "('b, 'm) sparse_matrix \<Rightarrow> 'b option" where
  "io_blocks (Fg_sparse_sym_matrix _ blocks) = Some blocks"
| "io_blocks (Fg_sparse_asym_matrix _ out_blocks in_blocks transposed) =
     Some (if transposed then in_blocks else out_blocks)"
| "io_blocks _ = None"

section \<open>Block execution orders (matrix/sparse\_matrix.cpp)\<close>

text \<open>
  A block is either present or a null pointer: \<open>'b option\<close>.  The calls of
  \<open>task.run_on_block\<close> are collected in the order in which they are made.
  \<open>exec\<close> returns \<open>true\<close> after its calls (\<open>Exec_ok\<close>), or \<open>false\<close> with an error logged and
  no call made (\<open>Exec_failed\<close>); an index past the end of the vector of blocks is undefined
  behaviour in the code and is \<open>Exec_out_of_bounds\<close> here.
\<close>

datatype 'b exec_result = Exec_ok "'b list" | Exec_failed "string list" | Exec_out_of_bounds

record coordinate_order =
  coo :: "nat \<times> nat"
  order :: nat

text \<open>\<open>n\<close> and \<open>hilbert_orders\<close> are the two fields of \<open>hilbert_exec_order\<close>.\<close>

datatype block_exec_order = Seq_exec_order | Hilbert_exec_order nat "coordinate_order list"

text \<open>
  The constructor of \<open>hilbert_exec_order\<close>.  \<open>hilbert_xy2d\<close> is defined in
  \<open>hilbert_curve.h\<close>, which is not among the sources: it is the parameter \<open>h\<close>.
  \<open>std::sort\<close> orders by \<open>operator<\<close>, which compares the field \<open>order\<close>; it is modelled
  by \<open>sort_key\<close>.  (\<open>std::sort\<close> may place elements with equal keys in any order; nothing
  proved below depends on how ties are placed.)
\<close>

definition hilbert_orders_unsorted :: "(nat \<Rightarrow> nat \<Rightarrow> nat \<Rightarrow> nat) \<Rightarrow> nat \<Rightarrow> coordinate_order list" where
  "hilbert_orders_unsorted h n =
     concat (map (\<lambda>i. map (\<lambda>j. \<lparr>coo = (i, j), order = h n i j\<rparr>) [0..<n]) [0..<n])"

definition hilbert_exec_order :: "(nat \<Rightarrow> nat \<Rightarrow> nat \<Rightarrow> nat) \<Rightarrow> nat \<Rightarrow> block_exec_order" where
  "hilbert_exec_order h n = Hilbert_exec_order n (sort_key order (hilbert_orders_unsorted h n))"

fun is_valid_size :: "block_exec_order \<Rightarrow> nat \<Rightarrow> nat \<Rightarrow> bool" where
  "is_valid_size Seq_exec_order height width = True"
| "is_valid_size (Hilbert_exec_order n _) height width = (n = height \<and> n = width)"

text \<open>\<open>seq_exec_order::exec\<close>: every non-null block, in the order of the vector.\<close>

fun seq_run :: "'b option list \<Rightarrow> 'b list" where
  "seq_run [] = []"
| "seq_run (None # blocks) = seq_run blocks"
| "seq_run (Some b # blocks) = b # seq_run blocks"

text \<open>The loop of \<open>hilbert_exec_order::exec\<close> over \<open>hilbert_orders\<close>.\<close>

fun hilbert_run :: "nat \<Rightarrow> coordinate_order list \<Rightarrow> 'b option list \<Rightarrow> 'b list option" where
  "hilbert_run n [] blocks = Some []"
| "hilbert_run n (co # os) blocks =
     (let row_idx = fst (coo co); col_idx = snd (coo co);
          idx = row_idx * n + col_idx
      in if idx < length blocks then
           (case hilbert_run n os blocks of
              None \<Rightarrow> None
            | Some calls \<Rightarrow> Some (case blocks ! idx of None \<Rightarrow> calls | Some b \<Rightarrow> b # calls))
         else None)"

fun exec :: "block_exec_order \<Rightarrow> 'b option list \<Rightarrow> 'b exec_result" where
  "exec Seq_exec_order blocks = Exec_ok (seq_run blocks)"
| "exec (Hilbert_exec_order n hilbert_orders) blocks =
     (if length blocks \<noteq> length hilbert_orders
      then Exec_failed [''The number of blocks need to be n^2'']
      else (case hilbert_run n hilbert_orders blocks of
              None \<Rightarrow> Exec_out_of_bounds
            | Some calls \<Rightarrow> Exec_ok calls))"

text \<open>The sequence of vector positions a Hilbert order visits.\<close>

definition visit_idxs :: "nat \<Rightarrow> coordinate_order list \<Rightarrow> nat list" where
  "visit_idxs n os = map (\<lambda>co. fst (coo co) * n + snd (coo co)) os"

text \<open>
  Modelled from the spec: \<open>hilbert_xy2d\<close> itself (the absent \<open>hilbert_curve.h\<close>).  The spec
  only says that blocks are processed ``along a Hilbert curve of order n''; this is the
  textbook conversion of a cell \<open>(x, y)\<close> of an \<open>n \<times> n\<close> grid to its distance along the
  curve.  It is used for the concrete examples only: every general result below is
  proved for an arbitrary \<open>h\<close>.
\<close>

definition hilbert_rot :: "nat \<Rightarrow> nat \<times> nat \<Rightarrow> bool \<Rightarrow> bool \<Rightarrow> nat \<times> nat" where
  "hilbert_rot n xy rx ry =
     (if \<not> ry then
        (let xy' = (if rx then (n - 1 - fst xy, n - 1 - snd xy) else xy)
         in (snd xy', fst xy'))
      else xy)"

function hilbert_loop :: "nat \<Rightarrow> nat \<Rightarrow> nat \<times> nat \<Rightarrow> nat \<Rightarrow> nat" where
  "hilbert_loop n s xy d =
     (if s = 0 then d
      else (let rx = (fst xy AND s) > 0; ry = (snd xy AND s) > 0
            in hilbert_loop n (s div 2) (hilbert_rot n xy rx ry)
                 (d + s * s * ((3 * of_bool rx) XOR of_bool ry))))"
  by pat_completeness auto
termination
  by (relation "measure (\<lambda>(n, s, xy, d). s)") auto

declare hilbert_loop.simps [simp del]

definition hilbert_xy2d :: "nat \<Rightarrow> nat \<Rightarrow> nat \<Rightarrow> nat" where
  "hilbert_xy2d n x y = hilbert_loop n (n div 2) (x, y) 0"

section \<open>Arithmetic on \<open>double\<close> values\<close>

text \<open>
  The matrix code converts counts of type \<open>size_t\<close> to \<open>double\<close> in two places.  A
  \<open>double\<close> has a significand of 53 bits; conversions and divisions round to the nearest
  value, ties to the even significand.  \<open>round_half_even p q\<close> is the integer nearest to
  \<open>p / q\<close>, \<open>bitlen n\<close> the number of bits of \<open>n\<close>, and \<open>double_of_nat n\<close> the value of
  \<open>(double) n\<close>, which is again a whole number.
\<close>

definition round_half_even :: "nat \<Rightarrow> nat \<Rightarrow> nat" where
  "round_half_even p q =
     (let f = p div q; r = p mod q
      in if 2 * r < q then f
         else if q < 2 * r then f + 1
         else if even f then f else f + 1)"

fun bitlen :: "nat \<Rightarrow> nat" where
  "bitlen n = (if n = 0 then 0 else Suc (bitlen (n div 2)))"

declare bitlen.simps [simp del]

definition double_of_nat :: "nat \<Rightarrow> nat" where
  "double_of_nat n =
     (if bitlen n \<le> 53 then n
      else (let s = bitlen n - 53 in round_half_even n (2 ^ s) * 2 ^ s))"

text \<open>
  \<open>ceil(a / b)\<close> for two positive \<open>double\<close> values \<open>a\<close> and \<open>b\<close> that are whole numbers:
  the quotient lies in \<open>[2^k, 2^(k+1))\<close> for \<open>k = quotient_exponent a b\<close>, it is rounded to
  a multiple of \<open>2^(k - 52)\<close>, and \<open>ceil\<close> of the rounded quotient is exact.
\<close>

definition quotient_exponent :: "nat \<Rightarrow> nat \<Rightarrow> int" where
  "quotient_exponent a b =
     (let d = int (bitlen a) - int (bitlen b)
      in if b * 2 ^ nat d \<le> a * 2 ^ nat (- d) then d else d - 1)"

definition ceil_double_div :: "nat \<Rightarrow> nat \<Rightarrow> nat" where
  "ceil_double_div a b =
     (if a = 0 then 0
      else (let e = quotient_exponent a b - 52;
                m = round_half_even (a * 2 ^ nat (- e)) (b * 2 ^ nat e)
            in if 0 \<le> e then m * 2 ^ nat e
               else (m + 2 ^ nat (- e) - 1) div 2 ^ nat (- e)))"

section \<open>Choosing the order of a multiplication (matrix/sparse\_matrix.cpp)\<close>

text \<open>
  \<open>block_sparse_matrix::get_multiply_order\<close> tests \<open>log2_nbr != floor(log2_nbr)\<close> on the
  \<open>double\<close> \<open>log2(num_block_rows)\<close>, where the count is first converted to \<open>double\<close>.
  For the count 0 the C library returns minus infinity, whose \<open>floor\<close> is minus infinity
  again, so the two compare equal.  For a power of two the logarithm is computed exactly
  and is a whole number.  For any other value below \<open>2^32\<close> the logarithm is more than
  \<open>2^-33\<close> away from every whole number, while the \<open>double\<close> values below 32 are at most
  \<open>2^-48\<close> apart, so the computed logarithm is not a whole number.  For larger values
  that are not powers of two the outcome depends on how the library rounds the logarithm
  (it happens that it rounds to a whole number); it is the parameter \<open>fp\<close>.
\<close>

fun is_pow2 :: "nat \<Rightarrow> bool" where
  "is_pow2 n = (if n \<le> 1 then n = 1 else even n \<and> is_pow2 (n div 2))"

declare is_pow2.simps [simp del]

definition log2_is_integral :: "(nat \<Rightarrow> bool) \<Rightarrow> nat \<Rightarrow> bool" where
  "log2_is_integral fp n =
     (let x = double_of_nat n
      in if x = 0 then True
         else if is_pow2 x then True
         else if x < 2 ^ 32 then False
         else fp x)"

text \<open>The result is the returned pointer (\<open>None\<close> is the empty pointer) and what was logged
  at level \<open>error\<close>.  \<open>use_hilbert\<close> is \<open>matrix_conf.use_hilbert_order()\<close>.\<close>

definition get_multiply_order ::
  "bool \<Rightarrow> (nat \<Rightarrow> bool) \<Rightarrow> (nat \<Rightarrow> nat \<Rightarrow> nat \<Rightarrow> nat) \<Rightarrow> nat \<Rightarrow> nat
     \<Rightarrow> block_exec_order option \<times> string list" where
  "get_multiply_order use_hilbert fp h num_block_rows num_block_cols =
     (if num_block_rows \<noteq> num_block_cols
      then (None, [''hilbert order requires a square.''])
      else if \<not> log2_is_integral fp num_block_rows
      then (None, [''hilbert order requires a dimension of 2^n''])
      else if use_hilbert then (Some (hilbert_exec_order h num_block_rows), [])
      else (Some Seq_exec_order, []))"

text \<open>The virtual method on the four kinds of matrix: the FlashGraph formats always answer
  with the sequential order, the asymmetric block matrix asks its \<open>mat\<close>.\<close>

fun matrix_get_multiply_order ::
  "bool \<Rightarrow> (nat \<Rightarrow> bool) \<Rightarrow> (nat \<Rightarrow> nat \<Rightarrow> nat \<Rightarrow> nat) \<Rightarrow> ('b, 'm) sparse_matrix \<Rightarrow> nat \<Rightarrow> nat
     \<Rightarrow> block_exec_order option \<times> string list" where
  "matrix_get_multiply_order u fp h (Fg_sparse_sym_matrix _ _) r c = (Some Seq_exec_order, [])"
| "matrix_get_multiply_order u fp h (Fg_sparse_asym_matrix _ _ _ _) r c = (Some Seq_exec_order, [])"
| "matrix_get_multiply_order u fp h (Block_sparse_matrix _ _) r c = get_multiply_order u fp h r c"
| "matrix_get_multiply_order u fp h (Block_sparse_asym_matrix _ _ _) r c = get_multiply_order u fp h r c"

text \<open>
  The constructor of \<open>block_compute_task\<close> (sparse\_matrix.cpp), for a matrix \<open>mat\<close> with
  blocks of \<open>block_rows\<close> rows and the index \<open>ix\<close>.  The number of block rows of the I/O is
  \<open>ceil(((double) io.get_num_rows()) / block_size.get_num_rows())\<close>, computed on
  \<open>double\<close> values; the order it was given is kept
  if it is valid for that many block rows and columns, otherwise the task uses a fresh
  \<open>seq_exec_order\<close>.  The order is dereferenced without a test, so an empty pointer is the
  error \<open>Null_order\<close>.  The request is computed as in the row task.  Then the offsets of
  the block rows of the I/O and of the end of the last one are looked up, and each is kept
  relative to the start of the buffer.  The two \<open>assert\<close>s are the error
  \<open>Assertion_failed\<close>.
\<close>

record block_compute_task =
  bt_io :: matrix_io
  bt_off :: int
  bt_buf_size :: int
  bt_exec_order :: block_exec_order
  bt_block_rows :: "int list"

datatype task_error = Null_order | Division_by_zero | Assertion_failed | Offset_out_of_bounds

fun off_value :: "off_result \<Rightarrow> int option" where
  "off_value (Off v _) = Some v"
| "off_value Out_of_bounds = None"

definition block_compute_task ::
  "int \<Rightarrow> nat \<Rightarrow> sparse_matrix_index \<Rightarrow> matrix_io \<Rightarrow> block_exec_order option
     \<Rightarrow> task_error + block_compute_task" where
  "block_compute_task P block_rows ix io order_ptr =
     (if block_rows = 0 then Inl Division_by_zero
      else (let num_block_rows =
                  ceil_double_div (double_of_nat (io_num_rows io)) (double_of_nat block_rows)
       in case order_ptr of
           None \<Rightarrow> Inl Null_order
         | Some ord \<Rightarrow>
             (let exec_order = (if is_valid_size ord num_block_rows num_block_rows
                                then ord else Seq_exec_order);
                  orig_off = io_offset io;
                  off = ROUND_PAGE P orig_off;
                  buf_size = ROUNDUP_PAGE P (orig_off - off + io_size io)
              in if io_top_row io mod block_rows \<noteq> 0 then Inl Assertion_failed
                 else (let block_row_idx = io_top_row io div block_rows;
                           block_row_idxs = map (\<lambda>i. block_row_idx + i) [0..<num_block_rows + 1]
                       in case those (map off_value (get_block_row_offs ix block_row_idxs)) of
                            None \<Rightarrow> Inl Offset_out_of_bounds
                          | Some block_row_offs \<Rightarrow>
                              if io_offset io \<noteq> block_row_offs ! 0 then Inl Assertion_failed
                              else Inr \<lparr>bt_io = io, bt_off = off, bt_buf_size = buf_size,
                                       bt_exec_order = exec_order,
                                       bt_block_rows = map (\<lambda>x. x - off) block_row_offs\<rparr>))))"

definition block_get_request :: "block_compute_task \<Rightarrow> io_request" where
  "block_get_request t =
     \<lparr>req_file_id = io_file_id (bt_io t), req_offset = bt_off t,
      req_size = bt_buf_size t, req_access = READ\<rparr>"

section \<open>The graph and its index as the k-core application sees them\<close>

type_synonym vertex_id_t = nat
type_synonym vsize_t = "32 word"

text \<open>
  The vertex index and the graph file are read by code that is not among the sources.
  Per vertex the index gives the size of the vertex in the file and the numbers of in-
  and out-edges (\<open>get_ext_mem_size\<close>, \<open>get_num_in_edges\<close>, \<open>get_num_out_edges\<close>); the graph
  file gives the adjacency lists a \<open>page_vertex\<close> shows to \<open>run\<close>.
\<close>

record in_mem_vertex_info =
  ext_mem_size :: vsize_t
  num_in :: vsize_t
  num_out :: vsize_t

record page_vertex =
  in_neighs :: "vertex_id_t list"
  out_neighs :: "vertex_id_t list"

record graph_data =
  vertex_header_size :: vsize_t
  index :: "in_mem_vertex_info list"
  adj :: "page_vertex list"

datatype edge_type = IN_EDGE | OUT_EDGE

fun get_num_edges :: "page_vertex \<Rightarrow> edge_type \<Rightarrow> nat" where
  "get_num_edges v IN_EDGE = length (in_neighs v)"
| "get_num_edges v OUT_EDGE = length (out_neighs v)"

text \<open>\<open>get_neigh_seq_it(E, start, end)\<close>: the neighbours of kind \<open>E\<close> at positions
  \<open>start\<close> up to \<open>stop\<close>.\<close>

fun get_neigh_seq_it :: "page_vertex \<Rightarrow> edge_type \<Rightarrow> nat \<Rightarrow> nat \<Rightarrow> vertex_id_t list" where
  "get_neigh_seq_it v IN_EDGE start stop = take (stop - start) (drop start (in_neighs v))"
| "get_neigh_seq_it v OUT_EDGE start stop = take (stop - start) (drop start (out_neighs v))"

text \<open>\<open>graph_engine::get_vertex_edges\<close> (graph\_engine.h), for the id of a vertex of the
  graph; \<open>sizeof(vertex_id_t)\<close> is 4, and the subtraction and the result are 32-bit
  unsigned.\<close>

definition get_vertex_edges :: "graph_data \<Rightarrow> vertex_id_t \<Rightarrow> vsize_t" where
  "get_vertex_edges g id' =
     (let info = index g ! id' in (ext_mem_size info - vertex_header_size g) div 4)"

text \<open>
  Modelled from the spec: the graph construction tools are not among the sources.  For a
  directed graph given by its edges \<open>(src, dst)\<close> on the vertices \<open>0, \<dots>, n - 1\<close>, vertex
  \<open>v\<close> has the sources of the edges into \<open>v\<close> as in-neighbours and the destinations of
  the edges out of \<open>v\<close> as out-neighbours, and the index counts both lists (the spec's
  degrees of E1 are in plus out).  In the spec's words a self-loop is ``counted once in
  its degree'': an edge \<open>(v, v)\<close> is listed once, among the out-neighbours of \<open>v\<close>.  The
  vertex occupies its header followed by one 4-byte id per neighbour: in the spec's
  scenario S3 the maximal degree query on E1 reports the maximal number of in- plus
  out-edges.
\<close>

definition edges_page_vertex :: "(vertex_id_t \<times> vertex_id_t) list \<Rightarrow> vertex_id_t \<Rightarrow> page_vertex" where
  "edges_page_vertex es v =
     \<lparr>in_neighs = map fst (filter (\<lambda>e. snd e = v \<and> fst e \<noteq> v) es),
      out_neighs = map snd (filter (\<lambda>e. fst e = v) es)\<rparr>"

definition page_vertex_info :: "vsize_t \<Rightarrow> page_vertex \<Rightarrow> in_mem_vertex_info" where
  "page_vertex_info hdr pv =
     \<lparr>ext_mem_size = hdr + 4 * (of_nat (length (in_neighs pv)) + of_nat (length (out_neighs pv))),
      num_in = of_nat (length (in_neighs pv)),
      num_out = of_nat (length (out_neighs pv))\<rparr>"

definition graph_of_edges :: "vsize_t \<Rightarrow> nat \<Rightarrow> (vertex_id_t \<times> vertex_id_t) list \<Rightarrow> graph_data" where
  "graph_of_edges hdr n es =
     \<lparr>vertex_header_size = hdr,
      index = map (\<lambda>v. page_vertex_info hdr (edges_page_vertex es v)) [0..<n],
      adj = map (edges_page_vertex es) [0..<n]\<rparr>"

text \<open>The graph E1 of the spec.\<close>

definition E1 :: graph_data where
  "E1 = graph_of_edges 16 6 [(0, 1), (1, 2), (2, 0), (2, 3), (3, 4), (4, 5), (5, 3)]"

text \<open>
  A directed graph on two vertices whose single edge \<open>0 \<rightarrow> 1\<close> carries a 4-byte
  attribute (graphs with edge data of a given size are provided for in
  flash-graph/utils.h): each vertex occupies its 16-byte header, 4 bytes for the
  neighbour and 4 bytes for the attribute.
\<close>

definition E_attr :: graph_data where
  "E_attr =
     \<lparr>vertex_header_size = 16,
      index = [\<lparr>ext_mem_size = 24, num_in = 0, num_out = 1\<rparr>,
               \<lparr>ext_mem_size = 24, num_in = 1, num_out = 0\<rparr>],
      adj = [\<lparr>in_neighs = [], out_neighs = [1]\<rparr>, \<lparr>in_neighs = [0], out_neighs = []\<rparr>]\<rparr>"

section \<open>The k-core vertex program (apps/k-core/k\_core.cpp)\<close>

text \<open>The state of a \<open>kcore_vertex\<close>: \<open>id\<close> and \<open>num_in_edges\<close> come from its base
  classes.  The global \<open>CURRENT_K\<close> is the parameter \<open>K\<close> of the callbacks.\<close>

record kcore_vertex =
  vid :: vertex_id_t
  num_in_edges :: vsize_t
  deleted :: bool
  degree :: vsize_t

definition new_kcore_vertex :: "graph_data \<Rightarrow> vertex_id_t \<Rightarrow> kcore_vertex" where
  "new_kcore_vertex g id' =
     \<lparr>vid = id', num_in_edges = num_in (index g ! id'), deleted = False,
      degree = num_in (index g ! id') + num_out (index g ! id')\<rparr>"

definition is_deleted :: "kcore_vertex \<Rightarrow> bool" where
  "is_deleted v = deleted v"

definition delete :: "kcore_vertex \<Rightarrow> kcore_vertex" where
  "delete v = v\<lparr>deleted := True\<rparr>"

definition get_degree :: "kcore_vertex \<Rightarrow> vsize_t" where
  "get_degree v = degree v"

text \<open>\<open>run(prog)\<close>: the result says whether the vertex requests its own edge list
  (\<open>request_vertices(&id, 1)\<close>); it changes nothing and sends nothing.\<close>

definition run :: "vsize_t \<Rightarrow> kcore_vertex \<Rightarrow> bool" where
  "run K v = (if degree v > K then False else \<not> is_deleted v)"

text \<open>\<open>multicast_delete_msg\<close>: one \<open>deleted_message\<close> to every neighbour of kind \<open>E\<close>;
  a message is represented by its destination.\<close>

definition multicast_delete_msg :: "page_vertex \<Rightarrow> edge_type \<Rightarrow> vertex_id_t list" where
  "multicast_delete_msg vertex E =
     (let num_dests = get_num_edges vertex E in get_neigh_seq_it vertex E 0 num_dests)"

text \<open>\<open>run(prog, vertex)\<close>: the new state and the messages sent, in order.\<close>

definition run_on_vertex :: "vsize_t \<Rightarrow> page_vertex \<Rightarrow> kcore_vertex \<Rightarrow> kcore_vertex \<times> vertex_id_t list" where
  "run_on_vertex K vertex v =
     (if is_deleted v then (v, [])
      else if get_degree v < K
      then (delete v, multicast_delete_msg vertex IN_EDGE @ multicast_delete_msg vertex OUT_EDGE)
      else (v, []))"

definition run_on_message :: "kcore_vertex \<Rightarrow> kcore_vertex" where
  "run_on_message v = (if is_deleted v then v else v\<lparr>degree := degree v - 1\<rparr>)"

text \<open>The two queries: the state of a query is its counter.\<close>

definition count_vertex_query_run :: "nat \<Rightarrow> kcore_vertex \<Rightarrow> nat" where
  "count_vertex_query_run num v = (if is_deleted v then num + 1 else num)"

definition count_vertex_query_merge :: "nat \<Rightarrow> nat \<Rightarrow> nat" where
  "count_vertex_query_merge num other = num + other"

definition max_degree_query_run :: "graph_data \<Rightarrow> vsize_t \<Rightarrow> kcore_vertex \<Rightarrow> vsize_t" where
  "max_degree_query_run g max_degree v =
     (if get_vertex_edges g (vid v) > max_degree then get_vertex_edges g (vid v)
      else max_degree)"

definition max_degree_query_merge :: "vsize_t \<Rightarrow> vsize_t \<Rightarrow> vsize_t" where
  "max_degree_query_merge max_degree other = (if max_degree < other then other else max_degree)"

section \<open>The engine around the vertex program\<close>

text \<open>
  Modelled from the spec: the level loop of the engine (\<open>graph_engine::start\<close>,
  \<open>wait4complete\<close>, the delivery of messages) is only declared in graph\_engine.h.
  Following the spec, a level first delivers the messages sent in the level before
  (\<open>run_on_message\<close> per message, before any \<open>run\<close> of the level), then runs every active
  vertex once: \<open>run(prog)\<close>, and \<open>run(prog, vertex)\<close> with the vertex's own adjacency
  lists if it asked for them.  The vertices that were sent a message are the active
  vertices of the next level, each once.  The engine is complete when no vertex is
  active.
\<close>

record level_state =
  vertices :: "kcore_vertex list"
  active :: "vertex_id_t list"
  inbox :: "vertex_id_t list"

definition deliver :: "kcore_vertex list \<Rightarrow> vertex_id_t list \<Rightarrow> kcore_vertex list" where
  "deliver vs msgs =
     foldl (\<lambda>vs d. if d < length vs then vs[d := run_on_message (vs ! d)] else vs) vs msgs"

fun run_active ::
  "vsize_t \<Rightarrow> graph_data \<Rightarrow> vertex_id_t list \<Rightarrow> kcore_vertex list
     \<Rightarrow> kcore_vertex list \<times> vertex_id_t list" where
  "run_active K g [] vs = (vs, [])"
| "run_active K g (v # act) vs =
     (if v < length vs \<and> v < length (adj g) \<and> run K (vs ! v)
      then (let r = run_on_vertex K (adj g ! v) (vs ! v);
                rest = run_active K g act (vs[v := fst r])
            in (fst rest, snd r @ snd rest))
      else run_active K g act vs)"

definition level_step :: "vsize_t \<Rightarrow> graph_data \<Rightarrow> level_state \<Rightarrow> level_state" where
  "level_step K g st =
     (let vs1 = deliver (vertices st) (inbox st);
          r = run_active K g (active st) vs1
      in \<lparr>vertices = fst r, active = remdups (snd r), inbox = snd r\<rparr>)"

text \<open>\<open>wait4complete\<close>: levels until no vertex is active; \<open>None\<close> when the given number of
  levels does not suffice.\<close>

fun wait4complete :: "nat \<Rightarrow> vsize_t \<Rightarrow> graph_data \<Rightarrow> level_state \<Rightarrow> kcore_vertex list option" where
  "wait4complete 0 K g st = None"
| "wait4complete (Suc fuel) K g st =
     (if active st = [] then Some (vertices st)
      else wait4complete fuel K g (level_step K g st))"

text \<open>
  Modelled from the spec: \<open>compute_vertex::get_num_edges\<close> is only declared in
  graph\_engine.h; a vertex stores its id and its in-edge count, and the number of its
  edges is what the engine's \<open>get_vertex_edges\<close> reports for its id.
\<close>

definition vertex_get_num_edges :: "graph_data \<Rightarrow> kcore_vertex \<Rightarrow> vsize_t" where
  "vertex_get_num_edges g v = get_vertex_edges g (vid v)"

definition get_num_in_edges :: "kcore_vertex \<Rightarrow> vsize_t" where
  "get_num_in_edges v = num_in_edges v"

definition get_num_out_edges :: "graph_data \<Rightarrow> kcore_vertex \<Rightarrow> vsize_t" where
  "get_num_out_edges g v = vertex_get_num_edges g v - num_in_edges v"

text \<open>\<open>activate_k_filter::keep\<close> in \<open>main\<close>, and \<open>graph->start(filter)\<close>: the vertices the
  filter keeps are the active vertices of the first level.\<close>

definition activate_k_filter_keep :: "graph_data \<Rightarrow> vsize_t \<Rightarrow> kcore_vertex \<Rightarrow> bool" where
  "activate_k_filter_keep g min' v = (get_num_in_edges v + get_num_out_edges g v < min')"

definition start :: "(kcore_vertex \<Rightarrow> bool) \<Rightarrow> kcore_vertex list \<Rightarrow> level_state" where
  "start keep vs =
     \<lparr>vertices = vs, active = filter (\<lambda>v. keep (vs ! v)) [0..<length vs], inbox = []\<rparr>"

text \<open>
  Modelled from the spec: \<open>query_on_all\<close> is only declared in graph\_engine.h.  The spec:
  the query is cloned per worker, each clone runs over the vertices of its worker, and
  the clones are merged into the query.  \<open>parts\<close> lists the vertices of each worker.
\<close>

definition query_on_all ::
  "('q \<Rightarrow> 'v \<Rightarrow> 'q) \<Rightarrow> ('q \<Rightarrow> 'q \<Rightarrow> 'q) \<Rightarrow> 'q \<Rightarrow> 'v list list \<Rightarrow> 'q \<Rightarrow> 'q" where
  "query_on_all run_q merge_q clone parts query =
     foldl merge_q query (map (foldl run_q clone) parts)"

definition worker_vertices :: "vertex_id_t list list \<Rightarrow> 'v list \<Rightarrow> 'v list list" where
  "worker_vertices parts vs = map (map (\<lambda>v. vs ! v)) parts"

definition count_deleted :: "vertex_id_t list list \<Rightarrow> kcore_vertex list \<Rightarrow> nat" where
  "count_deleted parts vs =
     query_on_all count_vertex_query_run count_vertex_query_merge 0 (worker_vertices parts vs) 0"

definition query_max_degree :: "graph_data \<Rightarrow> vertex_id_t list list \<Rightarrow> kcore_vertex list \<Rightarrow> vsize_t" where
  "query_max_degree g parts vs =
     query_on_all (max_degree_query_run g) max_degree_query_merge 0 (worker_vertices parts vs) 0"

text \<open>One peel: start the engine with the filter for \<open>K\<close> and wait for it.\<close>

definition peel :: "nat \<Rightarrow> graph_data \<Rightarrow> vsize_t \<Rightarrow> kcore_vertex list \<Rightarrow> kcore_vertex list option" where
  "peel fuel g K vs = wait4complete fuel K g (start (activate_k_filter_keep g K) vs)"

section \<open>The k-core command (\<open>main\<close> of apps/k-core/k\_core.cpp)\<close>

text \<open>\<open>atol\<close> of the C library: white space (the characters \<open>isspace\<close> accepts), an
  optional sign, then decimal digits up to the first other character; a value outside
  the range of \<open>long\<close> becomes \<open>LONG_MAX\<close> or \<open>LONG_MIN\<close>.\<close>

definition isspace :: "char \<Rightarrow> bool" where
  "isspace c = (c \<in> set [CHR '' '', CHR 0x09, CHR 0x0A, CHR 0x0B, CHR 0x0C, CHR 0x0D])"

fun atol_digits :: "int \<Rightarrow> string \<Rightarrow> int" where
  "atol_digits acc [] = acc"
| "atol_digits acc (c # cs) =
     (if c \<in> set ''0123456789'' then atol_digits (acc * 10 + (of_char c - 48)) cs else acc)"

definition saturate_long :: "int \<Rightarrow> int" where
  "saturate_long x = max (- (2 ^ 63)) (min (2 ^ 63 - 1) x)"

definition atol :: "string \<Rightarrow> int" where
  "atol s =
     saturate_long
       (case dropWhile isspace s of
          [] \<Rightarrow> 0
        | c # cs \<Rightarrow> if c = CHR ''-'' then - atol_digits 0 cs
                   else if c = CHR ''+'' then atol_digits 0 cs
                   else atol_digits 0 (c # cs))"

text \<open>
  The loop \<open>for (CURRENT_K = kmin; CURRENT_K <= kmax; CURRENT_K++)\<close> on 32-bit unsigned
  values: with \<open>kmax = 2^32 - 1\<close> the test never fails (\<open>None\<close>).
\<close>

definition k_values :: "vsize_t \<Rightarrow> vsize_t \<Rightarrow> vsize_t list option" where
  "k_values kmin kmax =
     (if kmax = - 1 then None else Some (map of_nat [unat kmin ..< unat kmax + 1]))"

text \<open>The body of the loop: a peel, then \<open>count_vertex_query\<close>, whose number is printed as
  \<open>in_k_core\<close> next to \<open>CURRENT_K\<close>.  The vertex state carries over to the next \<open>K\<close>.\<close>

fun kcore_rounds ::
  "nat \<Rightarrow> graph_data \<Rightarrow> vertex_id_t list list \<Rightarrow> vsize_t list \<Rightarrow> kcore_vertex list
     \<Rightarrow> (vsize_t \<times> nat) list option" where
  "kcore_rounds fuel g parts [] vs = Some []"
| "kcore_rounds fuel g parts (K # Ks) vs =
     (case peel fuel g K vs of
        None \<Rightarrow> None
      | Some vs' \<Rightarrow>
          (let in_k_core = count_deleted parts vs'
           in case kcore_rounds fuel g parts Ks vs' of
                None \<Rightarrow> None
              | Some lines \<Rightarrow> Some ((K, in_k_core) # lines)))"

text \<open>
  \<open>main\<close> after the options are taken off: \<open>args\<close> are the positional arguments
  \<open>conf graph index kmin [kmax]\<close>.  The configuration, the graph and the index are read by
  code outside the sources; \<open>g\<close> is the graph they describe and \<open>parts\<close> the vertices of
  each worker.  \<open>Exit c\<close> is \<open>exit(c)\<close> before the engine exists; \<open>Completed kmax lines\<close>
  is a run of the engine with the result lines printed (then \<open>main\<close> returns 0); \<open>None\<close>
  is a run that does not end.
\<close>

datatype main_result = Exit int | Completed vsize_t "(vsize_t \<times> nat) list"

definition main ::
  "nat \<Rightarrow> graph_data \<Rightarrow> vertex_id_t list list \<Rightarrow> string list \<Rightarrow> main_result option" where
  "main fuel g parts args =
     (if length args < 4 then Some (Exit (- 1))
      else (let kmin = word_of_int (atol (args ! 3));
                vs = map (new_kcore_vertex g) [0..<length (index g)];
                kmax = (if length args > 4 then word_of_int (atol (args ! 4))
                        else query_max_degree g parts vs)
            in case k_values kmin kmax of
                 None \<Rightarrow> None
               | Some Ks \<Rightarrow>
                   (case kcore_rounds fuel g parts Ks vs of
                      None \<Rightarrow> None
                    | Some lines \<Rightarrow> Some (Completed kmax lines))))"

text \<open>\<open>run_kcore\<close> of flash-graph/test-algs/test\_algs.cpp after its options \<open>-k\<close> and \<open>-m\<close>
  are parsed: the result is the exit with its message, or the call of \<open>compute_kcore\<close>
  (which is not among the sources) with its arguments.\<close>

datatype run_kcore_result = Kcore_exit int "string list" | Compute_kcore nat nat bool

definition run_kcore :: "nat \<Rightarrow> nat \<Rightarrow> bool \<Rightarrow> run_kcore_result" where
  "run_kcore k kmax skips =
     (if k < 2 then Kcore_exit (- 1) [''[Error]: kmin cannot be < 2'']
      else Compute_kcore k kmax skips)"

section \<open>Properties stated in the terms of the specification\<close>

text \<open>
  A request \<open>r\<close> is a page-aligned cover of the I/O \<open>io\<close>: it starts at the offset of
  \<open>io\<close> rounded down to a page boundary, its size is a multiple of the page size that is
  rounded up from the bytes needed (less than one page of slack), and the byte range
  \<open>[offset, offset + size)\<close> of \<open>r\<close> contains the byte range of \<open>io\<close>.
\<close>

definition page_aligned_cover :: "int \<Rightarrow> matrix_io \<Rightarrow> io_request \<Rightarrow> bool" where
  "page_aligned_cover P io r =
     (P dvd req_offset r \<and> req_offset r \<le> io_offset io \<and> io_offset io < req_offset r + P
      \<and> P dvd req_size r
      \<and> io_offset io + io_size io \<le> req_offset r + req_size r
      \<and> req_offset r + req_size r < io_offset io + io_size io + P
      \<and> req_file_id r = io_file_id io \<and> req_access r = READ)"

text \<open>The list of coordinates a Hilbert order holds (empty for the sequential order).\<close>

fun hilbert_orders :: "block_exec_order \<Rightarrow> coordinate_order list" where
  "hilbert_orders Seq_exec_order = []"
| "hilbert_orders (Hilbert_exec_order n os) = os"

text \<open>The positions of the vertices that are not deleted.\<close>

definition alive :: "kcore_vertex list \<Rightarrow> nat set" where
  "alive vs = {i. i < length vs \<and> \<not> is_deleted (vs ! i)}"

section \<open>Results: page alignment\<close>

lemma ROUND_PAGE_props:
  assumes "0 < P"
  shows "P dvd ROUND_PAGE P x" and "ROUND_PAGE P x \<le> x" and "x < ROUND_PAGE P x + P"
proof -
  show "P dvd ROUND_PAGE P x" by (simp add: ROUND_PAGE_def)
  have m: "x = (x div P) * P + x mod P" by simp
  have "0 \<le> x mod P" "x mod P < P" using assms by simp_all
  with m show "ROUND_PAGE P x \<le> x" and "x < ROUND_PAGE P x + P"
    unfolding ROUND_PAGE_def by linarith+
qed

lemma ROUNDUP_PAGE_props:
  assumes "0 < P"
  shows "P dvd ROUNDUP_PAGE P x" and "x \<le> ROUNDUP_PAGE P x" and "ROUNDUP_PAGE P x < x + P"
proof -
  show "P dvd ROUNDUP_PAGE P x" by (simp add: ROUNDUP_PAGE_def)
  have r: "ROUNDUP_PAGE P x = ROUND_PAGE P (x + P - 1)"
    by (simp add: ROUNDUP_PAGE_def ROUND_PAGE_def)
  from ROUND_PAGE_props(2,3) [OF assms, of "x + P - 1"] r
  show "x \<le> ROUNDUP_PAGE P x" and "ROUNDUP_PAGE P x < x + P" by linarith+
qed

lemma bitlen_le_iff: "bitlen n \<le> k \<longleftrightarrow> n < 2 ^ k"
proof (induction k arbitrary: n)
  case 0
  then show ?case by (simp add: bitlen.simps [of n])
next
  case (Suc k)
  have "bitlen n \<le> Suc k \<longleftrightarrow> n = 0 \<or> bitlen (n div 2) \<le> k"
    by (simp add: bitlen.simps [of n])
  also have "\<dots> \<longleftrightarrow> n = 0 \<or> n div 2 < 2 ^ k" by (simp only: Suc.IH)
  also have "\<dots> \<longleftrightarrow> n < 2 ^ Suc k" by auto
  finally show ?case .
qed

lemma double_of_nat_exact: "n < 2 ^ 53 \<Longrightarrow> double_of_nat n = n"
  by (simp add: double_of_nat_def bitlen_le_iff)

lemma num_block_rows_3000: "ceil_double_div (double_of_nat 3000) (double_of_nat 1024) = 3"
  by (simp add: double_of_nat_exact ceil_double_div_def quotient_exponent_def
      round_half_even_def bitlen.simps Let_def)

lemma num_block_rows_10: "ceil_double_div (double_of_nat 10) (double_of_nat 1024) = 1"
  by (simp add: double_of_nat_exact ceil_double_div_def quotient_exponent_def
      round_half_even_def bitlen.simps Let_def)

text \<open>
  C7.  Every request a compute task issues is a page-aligned cover of its I/O: for the
  row task of the FlashGraph format and for the block task alike, \<open>get_request\<close> asks for
  the file of the I/O, starting at the I/O's offset rounded down to a page boundary, a
  whole number of pages, and the range asked for contains \<open>[o, o + s)\<close>.
\<close>

theorem get_request_page_aligned:
  assumes "0 < P"
  shows "page_aligned_cover P io (fg_get_request (fg_row_compute_task P io))
       \<and> req_offset (fg_get_request (fg_row_compute_task P io)) = ROUND_PAGE P (io_offset io)
       \<and> (block_compute_task P block_rows ix io order_ptr = Inr t \<longrightarrow>
            page_aligned_cover P io (block_get_request t)
            \<and> req_offset (block_get_request t) = ROUND_PAGE P (io_offset io))"
proof -
  note r = ROUND_PAGE_props [OF assms, of "io_offset io"]
    ROUNDUP_PAGE_props [OF assms, of "io_offset io - ROUND_PAGE P (io_offset io) + io_size io"]
  have a: "page_aligned_cover P io (fg_get_request (fg_row_compute_task P io))
       \<and> req_offset (fg_get_request (fg_row_compute_task P io)) = ROUND_PAGE P (io_offset io)"
    using r by (simp add: page_aligned_cover_def fg_get_request_def fg_row_compute_task_def Let_def)
  have b: "page_aligned_cover P io (block_get_request t)
            \<and> req_offset (block_get_request t) = ROUND_PAGE P (io_offset io)"
    if "block_compute_task P block_rows ix io order_ptr = Inr t"
  proof -
    from that have "bt_io t = io \<and> bt_off t = ROUND_PAGE P (io_offset io)
        \<and> bt_buf_size t = ROUNDUP_PAGE P (io_offset io - ROUND_PAGE P (io_offset io) + io_size io)"
      by (auto simp: block_compute_task_def Let_def split: if_splits option.splits)
    with r show ?thesis by (simp add: page_aligned_cover_def block_get_request_def)
  qed
  from a b show ?thesis by blast
qed

theorem get_request_page_aligned_witness:
  "(0::int) < 4096 \<and>
   fg_get_request (fg_row_compute_task 4096
      \<lparr>io_file_id = 3, io_offset = 5000, io_size = 4000, io_num_rows = 10, io_top_row = 0\<rparr>)
    = \<lparr>req_file_id = 3, req_offset = 4096, req_size = 8192, req_access = READ\<rparr>
   \<and> page_aligned_cover 4096
      \<lparr>io_file_id = 3, io_offset = 5000, io_size = 4000, io_num_rows = 10, io_top_row = 0\<rparr>
      \<lparr>req_file_id = 3, req_offset = 4096, req_size = 8192, req_access = READ\<rparr>
   \<and> block_compute_task 4096 1024 \<lparr>header = \<lparr>hdr_num_block_rows = 2\<rparr>, offs = [0, 5000, 9000]\<rparr>
        \<lparr>io_file_id = 3, io_offset = 5000, io_size = 4000, io_num_rows = 10, io_top_row = 1024\<rparr>
        (Some Seq_exec_order)
      = Inr \<lparr>bt_io = \<lparr>io_file_id = 3, io_offset = 5000, io_size = 4000, io_num_rows = 10,
                        io_top_row = 1024\<rparr>,
             bt_off = 4096, bt_buf_size = 8192, bt_exec_order = Seq_exec_order,
             bt_block_rows = [904, 4904]\<rparr>
   \<and> page_aligned_cover 4096
        \<lparr>io_file_id = 3, io_offset = 5000, io_size = 4000, io_num_rows = 10, io_top_row = 1024\<rparr>
        (block_get_request
          \<lparr>bt_io = \<lparr>io_file_id = 3, io_offset = 5000, io_size = 4000, io_num_rows = 10,
                      io_top_row = 1024\<rparr>,
           bt_off = 4096, bt_buf_size = 8192, bt_exec_order = Seq_exec_order,
           bt_block_rows = [904, 4904]\<rparr>)"
proof -
  let ?io1 = "\<lparr>io_file_id = 3, io_offset = 5000, io_size = 4000, io_num_rows = 10, io_top_row = 0\<rparr>"
  let ?io2 = "\<lparr>io_file_id = 3, io_offset = 5000, io_size = 4000, io_num_rows = 10, io_top_row = 1024\<rparr>"
  let ?ix = "\<lparr>header = \<lparr>hdr_num_block_rows = 2\<rparr>, offs = [0, 5000, 9000]\<rparr>"
  let ?t = "\<lparr>bt_io = ?io2, bt_off = 4096, bt_buf_size = 8192, bt_exec_order = Seq_exec_order,
             bt_block_rows = [904, 4904]\<rparr>"
  have p: "(0::int) < 4096" by simp
  have f: "fg_get_request (fg_row_compute_task 4096 ?io1)
      = \<lparr>req_file_id = 3, req_offset = 4096, req_size = 8192, req_access = READ\<rparr>"
    by (simp add: fg_get_request_def fg_row_compute_task_def ROUND_PAGE_def ROUNDUP_PAGE_def Let_def)
  have u: "[0..<Suc (Suc 0)] = [0, Suc 0]" by simp
  have c: "block_compute_task 4096 1024 ?ix ?io2 (Some Seq_exec_order) = Inr ?t"
    by (simp add: block_compute_task_def num_block_rows_10 get_block_row_offs_def
        get_block_row_off_def get_num_entries_def get_num_block_rows_def
        ROUND_PAGE_def ROUNDUP_PAGE_def Let_def u)
  from get_request_page_aligned [OF p, of ?io1] f
  have 1: "page_aligned_cover 4096 ?io1
      \<lparr>req_file_id = 3, req_offset = 4096, req_size = 8192, req_access = READ\<rparr>" by simp
  from get_request_page_aligned [OF p, where io = ?io2 and block_rows = 1024
      and ix = ?ix and order_ptr = "Some Seq_exec_order" and t = ?t] c
  have 2: "page_aligned_cover 4096 ?io2 (block_get_request ?t)" by blast
  from p f c 1 2 show ?thesis by blast
qed

section \<open>Results: the block-row offsets of the index\<close>

text \<open>An index made by \<open>create\<close> stores as many offsets as \<open>get_num_entries\<close> says, and for
  such an index \<open>get_block_row_off\<close> never reads outside the array.\<close>

lemma create_in_range:
  assumes "create alloc_ok hdr offsets = (Some ix, log)"
  shows "get_num_entries ix = length (offs ix)"
    and "get_block_row_off ix idx =
           (if idx \<ge> length (offs ix)
            then Off (- 1) [''get_block_row_off: out of range.'']
            else Off (offs ix ! idx) [])"
proof -
  from assms have ix: "ix = \<lparr>header = hdr, offs = offsets\<rparr>"
    and len: "length offsets = hdr_num_block_rows hdr + 1"
    by (auto simp: create_def split: if_splits)
  then show e: "get_num_entries ix = length (offs ix)"
    by (simp add: get_num_entries_def get_num_block_rows_def)
  then show "get_block_row_off ix idx =
           (if idx \<ge> length (offs ix)
            then Off (- 1) [''get_block_row_off: out of range.'']
            else Off (offs ix ! idx) [])"
    by (simp add: get_block_row_off_def)
qed

text \<open>
  C10.  \<open>get_block_row_off\<close> guards the read of \<open>offs[idx]\<close> by \<open>get_num_entries\<close>, which
  comes from the header, while \<open>load\<close> takes a file of any length for an index.  For an
  index loaded from a file whose header announces 4 block rows (5 entries) but which
  holds only 2 offsets, the call with \<open>idx = 3\<close> passes the guard and reads outside the
  stored array; in range (\<open>idx = 1\<close>) it returns the stored offset and from 5 on it logs
  an error and returns -1.  \<open>create\<close> refuses the same header with the same 2 offsets.
\<close>

theorem loaded_index_read_out_of_bounds:
  "load (Index_bytes \<lparr>hdr_num_block_rows = 4\<rparr> [0, 4096])
     = (Some \<lparr>header = \<lparr>hdr_num_block_rows = 4\<rparr>, offs = [0, 4096]\<rparr>, [])
   \<and> get_num_entries \<lparr>header = \<lparr>hdr_num_block_rows = 4\<rparr>, offs = [0, 4096]\<rparr> = 5
   \<and> get_block_row_off \<lparr>header = \<lparr>hdr_num_block_rows = 4\<rparr>, offs = [0, 4096]\<rparr> 3 = Out_of_bounds
   \<and> get_block_row_off \<lparr>header = \<lparr>hdr_num_block_rows = 4\<rparr>, offs = [0, 4096]\<rparr> 1 = Off 4096 []
   \<and> get_block_row_off \<lparr>header = \<lparr>hdr_num_block_rows = 4\<rparr>, offs = [0, 4096]\<rparr> 5
       = Off (- 1) [''get_block_row_off: out of range.'']
   \<and> create True \<lparr>hdr_num_block_rows = 4\<rparr> [0, 4096]
       = (None, [''There are an incorrect number of offsets''])"
  by (simp add: load_def get_num_entries_def get_num_block_rows_def get_block_row_off_def create_def)

section \<open>Results: transposition\<close>

lemma base_transpose_involution: "base_transpose (base_transpose b) = b"
  by (simp add: base_transpose_def Let_def)

lemma transpose_involution: "transpose_matrix (transpose_matrix m) = m"
  by (cases m) (simp_all add: base_transpose_involution Let_def)

text \<open>
  C9.  For every kind of sparse matrix, transposing twice gives back the numbers of rows
  and columns (indeed the whole matrix object).  The two symmetric kinds are left as they
  are by \<open>transpose\<close>; the asymmetric FlashGraph matrix flips its \<open>transposed\<close> flag, which
  selects the in-edge index instead of the out-edge index, the asymmetric block matrix
  exchanges \<open>mat\<close> and \<open>t_mat\<close>, and both exchange the two counts.
\<close>

theorem transpose_twice_restores_shape:
  "get_num_rows (transpose_matrix (transpose_matrix m)) = get_num_rows m
   \<and> get_num_cols (transpose_matrix (transpose_matrix m)) = get_num_cols m
   \<and> transpose_matrix (transpose_matrix m) = m
   \<and> transpose_matrix (Fg_sparse_sym_matrix b blocks) = Fg_sparse_sym_matrix b blocks
   \<and> transpose_matrix (Block_sparse_matrix b ix) = Block_sparse_matrix b ix
   \<and> transpose_matrix (Fg_sparse_asym_matrix b out_blocks in_blocks t)
       = Fg_sparse_asym_matrix \<lparr>nrows = ncols b, ncols = nrows b, symmetric = symmetric b\<rparr>
           out_blocks in_blocks (\<not> t)
   \<and> io_blocks (transpose_matrix (Fg_sparse_asym_matrix b out_blocks in_blocks False)) = Some in_blocks
   \<and> transpose_matrix (Block_sparse_asym_matrix b mat t_mat)
       = Block_sparse_asym_matrix \<lparr>nrows = ncols b, ncols = nrows b, symmetric = symmetric b\<rparr>
           t_mat mat"
  by (simp add: transpose_involution base_transpose_def Let_def)

section \<open>Results: the Hilbert order\<close>

lemma row_major_upto:
  "concat (map (\<lambda>i. map (\<lambda>j. i * n + j) [0..<n]) [0..<k]) = [0..<k * n]"
proof (induction k)
  case 0
  then show ?case by simp
next
  case (Suc k)
  have a: "map (\<lambda>j. k * n + j) [0..<n] = [k * n..<k * n + n]"
    using map_add_upt [of "k * n" n] by (simp add: add.commute)
  have b: "[0..<k * n + n] = [0..<k * n] @ [k * n..<k * n + n]"
    by (rule upt_add_eq_append) simp
  have "concat (map (\<lambda>i. map (\<lambda>j. i * n + j) [0..<n]) [0..<Suc k])
      = concat (map (\<lambda>i. map (\<lambda>j. i * n + j) [0..<n]) [0..<k]) @ map (\<lambda>j. k * n + j) [0..<n]"
    by simp
  also have "\<dots> = [0..<k * n] @ [k * n..<k * n + n]"
    by (simp only: Suc.IH a)
  also have "\<dots> = [0..<Suc k * n]"
    using b by (simp add: add.commute)
  finally show ?case .
qed

lemma visit_idxs_unsorted: "visit_idxs n (hilbert_orders_unsorted h n) = [0..<n * n]"
  using row_major_upto [of n n]
  by (simp add: visit_idxs_def hilbert_orders_unsorted_def map_concat comp_def)

lemma coo_unsorted: "map coo (hilbert_orders_unsorted h n) = List.product [0..<n] [0..<n]"
  by (simp add: hilbert_orders_unsorted_def map_concat comp_def List.product_concat_map)

lemma mset_visit_idxs_sorted:
  "mset (visit_idxs n (sort_key order (hilbert_orders_unsorted h n))) = mset [0..<n * n]"
proof -
  have "mset (visit_idxs n (sort_key order (hilbert_orders_unsorted h n)))
      = mset (visit_idxs n (hilbert_orders_unsorted h n))"
    by (simp add: visit_idxs_def)
  then show ?thesis by (simp only: visit_idxs_unsorted)
qed

lemma hilbert_run_eq:
  "\<forall>i \<in> set (visit_idxs n os). i < length blocks \<Longrightarrow>
   hilbert_run n os blocks = Some (seq_run (map (\<lambda>i. blocks ! i) (visit_idxs n os)))"
proof (induction os)
  case Nil
  then show ?case by (simp add: visit_idxs_def)
next
  case (Cons co os)
  then show ?case
    by (cases "blocks ! (fst (coo co) * n + snd (coo co))") (simp_all add: visit_idxs_def Let_def)
qed

lemma mset_seq_run: "mset (seq_run xs) = image_mset the (filter_mset (\<lambda>x. x \<noteq> None) (mset xs))"
  by (induction xs rule: seq_run.induct) simp_all

lemma mset_seq_run_cong: "mset xs = mset ys \<Longrightarrow> mset (seq_run xs) = mset (seq_run ys)"
  by (simp add: mset_seq_run)

lemma mset_map_nth_perm:
  assumes "mset idxs = mset [0..<length blocks]"
  shows "mset (map (\<lambda>i. blocks ! i) idxs) = mset blocks"
proof -
  have "mset (map (\<lambda>i. blocks ! i) idxs) = image_mset (\<lambda>i. blocks ! i) (mset idxs)" by simp
  also have "\<dots> = image_mset (\<lambda>i. blocks ! i) (mset [0..<length blocks])" using assms by simp
  also have "\<dots> = mset (map (\<lambda>i. blocks ! i) [0..<length blocks])" by simp
  also have "\<dots> = mset blocks" by (simp only: map_nth)
  finally show ?thesis .
qed

text \<open>
  C4.  For a Hilbert order of order \<open>n\<close> and a vector of \<open>n * n\<close> blocks, \<open>exec\<close> returns
  \<open>true\<close> and calls \<open>run_on_block\<close> on the non-null blocks at the positions
  \<open>row * n + col\<close> of the precomputed coordinates, in their order; these positions are
  every position of the vector exactly once, so every non-null block is run exactly once.
  The precomputed list is a permutation of all \<open>n * n\<close> coordinates of the grid (no
  coordinate twice), ordered by ascending \<open>hilbert_xy2d\<close>.
\<close>

theorem hilbert_exec_each_block_once:
  assumes "length blocks = n * n"
  shows "exec (hilbert_exec_order h n) blocks
           = Exec_ok (seq_run (map (\<lambda>i. blocks ! i)
                        (visit_idxs n (hilbert_orders (hilbert_exec_order h n)))))
       \<and> mset (seq_run (map (\<lambda>i. blocks ! i)
                        (visit_idxs n (hilbert_orders (hilbert_exec_order h n)))))
           = mset (seq_run blocks)
       \<and> mset (visit_idxs n (hilbert_orders (hilbert_exec_order h n))) = mset [0..<n * n]
       \<and> mset (map coo (hilbert_orders (hilbert_exec_order h n)))
           = mset (List.product [0..<n] [0..<n])
       \<and> distinct (map coo (hilbert_orders (hilbert_exec_order h n)))
       \<and> length (hilbert_orders (hilbert_exec_order h n)) = n * n
       \<and> sorted (map order (hilbert_orders (hilbert_exec_order h n)))
       \<and> (\<forall>co \<in> set (hilbert_orders (hilbert_exec_order h n)).
             order co = h n (fst (coo co)) (snd (coo co)))"
proof -
  let ?os = "sort_key order (hilbert_orders_unsorted h n)"
  have os: "hilbert_orders (hilbert_exec_order h n) = ?os"
    by (simp add: hilbert_exec_order_def)
  have ms: "mset (visit_idxs n ?os) = mset [0..<length blocks]"
    using mset_visit_idxs_sorted [of n h] assms by simp
  have len: "length ?os = n * n"
    using visit_idxs_unsorted [of n h, THEN arg_cong, of length]
    by (simp add: visit_idxs_def)
  have "set (visit_idxs n ?os) = set [0..<length blocks]"
    using ms by (rule mset_eq_setD)
  then have inb: "\<forall>i \<in> set (visit_idxs n ?os). i < length blocks" by simp
  have run: "hilbert_run n ?os blocks = Some (seq_run (map (\<lambda>i. blocks ! i) (visit_idxs n ?os)))"
    using inb by (rule hilbert_run_eq)
  have e: "exec (hilbert_exec_order h n) blocks
         = Exec_ok (seq_run (map (\<lambda>i. blocks ! i) (visit_idxs n ?os)))"
    using run len assms by (simp add: hilbert_exec_order_def)
  have m: "mset (seq_run (map (\<lambda>i. blocks ! i) (visit_idxs n ?os))) = mset (seq_run blocks)"
    by (rule mset_seq_run_cong) (rule mset_map_nth_perm [OF ms])
  have c: "mset (map coo ?os) = mset (List.product [0..<n] [0..<n])"
    using coo_unsorted [of h n, THEN arg_cong, of mset] by simp
  have d: "distinct (map coo ?os)"
  proof -
    have "distinct (List.product [0..<n] [0..<n])" by (simp add: distinct_product)
    then show ?thesis using c by (metis mset_eq_imp_distinct_iff)
  qed
  have s: "sorted (map order ?os)" by (rule sorted_sort_key)
  have o: "\<forall>co \<in> set ?os. order co = h n (fst (coo co)) (snd (coo co))"
    by (auto simp: hilbert_orders_unsorted_def)
  show ?thesis
    unfolding os using e [unfolded os] m ms assms c d len s o by simp
qed


theorem hilbert_exec_each_block_once_witness:
  "length [Some (0::nat), Some 1, None, Some 3, Some 4, Some 5, Some 6, Some 7,
           Some 8, None, Some 10, Some 11, Some 12, Some 13, Some 14, Some 15] = 4 * 4
   \<and> exec (hilbert_exec_order hilbert_xy2d 4)
        [Some (0::nat), Some 1, None, Some 3, Some 4, Some 5, Some 6, Some 7,
         Some 8, None, Some 10, Some 11, Some 12, Some 13, Some 14, Some 15]
      = Exec_ok [0, 4, 5, 1, 3, 7, 6, 10, 11, 15, 14, 13, 8, 12]
   \<and> map coo (hilbert_orders (hilbert_exec_order hilbert_xy2d 4))
      = [(0, 0), (1, 0), (1, 1), (0, 1), (0, 2), (0, 3), (1, 3), (1, 2),
         (2, 2), (2, 3), (3, 3), (3, 2), (3, 1), (2, 1), (2, 0), (3, 0)]
   \<and> distinct (map coo (hilbert_orders (hilbert_exec_order hilbert_xy2d 4)))
   \<and> sorted (map order (hilbert_orders (hilbert_exec_order hilbert_xy2d 4)))"
proof -
  let ?blocks = "[Some (0::nat), Some 1, None, Some 3, Some 4, Some 5, Some 6, Some 7,
           Some 8, None, Some 10, Some 11, Some 12, Some 13, Some 14, Some 15]"
  have len: "length ?blocks = 4 * 4" by simp
  have ex: "exec (hilbert_exec_order hilbert_xy2d 4) ?blocks
      = Exec_ok [0, 4, 5, 1, 3, 7, 6, 10, 11, 15, 14, 13, 8, 12]"
    by code_simp
  have cs: "map coo (hilbert_orders (hilbert_exec_order hilbert_xy2d 4))
      = [(0, 0), (1, 0), (1, 1), (0, 1), (0, 2), (0, 3), (1, 3), (1, 2),
         (2, 2), (2, 3), (3, 3), (3, 2), (3, 1), (2, 1), (2, 0), (3, 0)]"
    by code_simp
  from hilbert_exec_each_block_once [OF len, of hilbert_xy2d]
  have "distinct (map coo (hilbert_orders (hilbert_exec_order hilbert_xy2d 4)))"
    and "sorted (map order (hilbert_orders (hilbert_exec_order hilbert_xy2d 4)))"
    by blast+
  with len ex cs show ?thesis by blast
qed

section \<open>Results: rejecting or replacing the Hilbert order\<close>

text \<open>For a grid that is not square, or whose dimension is positive, below \<open>2^32\<close> and
  not a power of two, \<open>get_multiply_order\<close> logs an error and returns the empty pointer.
  A block compute task that is given an order which is not valid for its own number of
  block rows takes the sequential order instead.\<close>

lemma is_pow2_iff: "is_pow2 n = (\<exists>k. n = 2 ^ k)"
proof (induction n rule: is_pow2.induct)
  case (1 n)
  show ?case
  proof (cases "n \<le> 1")
    case True
    have "(\<exists>k. n = 2 ^ k) = (n = 1)"
    proof
      assume "\<exists>k. n = 2 ^ k"
      then obtain k where k: "n = 2 ^ k" ..
      have "(1::nat) \<le> 2 ^ k" by simp
      with k True show "n = 1" by linarith
    next
      assume "n = 1"
      then have "n = 2 ^ 0" by simp
      then show "\<exists>k. n = 2 ^ k" ..
    qed
    with True show ?thesis by (simp add: is_pow2.simps [of n])
  next
    case False
    have "(even n \<and> (\<exists>k. n div 2 = 2 ^ k)) = (\<exists>k. n = 2 ^ k)"
    proof
      assume a: "even n \<and> (\<exists>k. n div 2 = 2 ^ k)"
      then obtain k where k: "n div 2 = 2 ^ k" by blast
      from a have "n = 2 * (n div 2)" by simp
      with k have "n = 2 ^ Suc k" by simp
      then show "\<exists>k. n = 2 ^ k" ..
    next
      assume "\<exists>k. n = 2 ^ k"
      then obtain k where k: "n = 2 ^ k" ..
      with False have "k \<noteq> 0" by (cases k) simp_all
      then obtain j where j: "k = Suc j" by (cases k) simp_all
      with k have "even n" "n div 2 = 2 ^ j" by simp_all
      then show "even n \<and> (\<exists>k. n div 2 = 2 ^ k)" by blast
    qed
    with False 1 show ?thesis by (simp add: is_pow2.simps [of n])
  qed
qed


lemma log2_is_integral_small:
  assumes "n < 2 ^ 32"
  shows "log2_is_integral fp n \<longleftrightarrow> n = 0 \<or> (\<exists>k. n = 2 ^ k)"
proof -
  have "n < 2 ^ 53" using assms by (rule less_le_trans) simp
  then have "double_of_nat n = n" by (rule double_of_nat_exact)
  with assms show ?thesis by (auto simp: log2_is_integral_def is_pow2_iff Let_def)
qed

lemma get_multiply_order_rejects:
  assumes "r \<noteq> c \<or> (0 < c \<and> c < 2 ^ 32 \<and> (\<nexists>k. c = 2 ^ k))"
  shows "fst (get_multiply_order u fp h r c) = None"
    and "snd (get_multiply_order u fp h r c) = [''hilbert order requires a square.'']
         \<or> snd (get_multiply_order u fp h r c) = [''hilbert order requires a dimension of 2^n'']"
proof -
  have "fst (get_multiply_order u fp h r c) = None
      \<and> (snd (get_multiply_order u fp h r c) = [''hilbert order requires a square.'']
         \<or> snd (get_multiply_order u fp h r c) = [''hilbert order requires a dimension of 2^n''])"
  proof (cases "r = c")
    case True
    with assms have "\<not> log2_is_integral fp r"
      by (simp add: log2_is_integral_small)
    with True show ?thesis by (simp add: get_multiply_order_def)
  next
    case False
    then show ?thesis by (simp add: get_multiply_order_def)
  qed
  then show "fst (get_multiply_order u fp h r c) = None"
    and "snd (get_multiply_order u fp h r c) = [''hilbert order requires a square.'']
         \<or> snd (get_multiply_order u fp h r c) = [''hilbert order requires a dimension of 2^n'']"
    by blast+
qed

lemma block_compute_task_null_order:
  "0 < block_rows \<Longrightarrow> block_compute_task P block_rows ix io None = Inl Null_order"
  by (simp add: block_compute_task_def)

lemma block_compute_task_falls_back:
  assumes "block_compute_task P block_rows ix io (Some ord) = Inr t"
    and "\<not> is_valid_size ord
            (ceil_double_div (double_of_nat (io_num_rows io)) (double_of_nat block_rows))
            (ceil_double_div (double_of_nat (io_num_rows io)) (double_of_nat block_rows))"
  shows "bt_exec_order t = Seq_exec_order"
    and "exec (bt_exec_order t) blocks = Exec_ok (seq_run blocks)"
proof -
  from assms show "bt_exec_order t = Seq_exec_order"
    by (auto simp: block_compute_task_def Let_def split: if_splits option.splits)
  then show "exec (bt_exec_order t) blocks = Exec_ok (seq_run blocks)" by simp
qed

lemma double_of_nat_rounds: "double_of_nat (2 ^ 53 + 1) = 2 ^ 53"
  by (simp add: double_of_nat_def bitlen.simps round_half_even_def Let_def)

text \<open>
  C5.  \<open>get_multiply_order\<close> does not reject every dimension that is not a power of two.
  For the dimension 0 the test on \<open>log2\<close> finds nothing wrong: no error is logged and an
  order is returned, the Hilbert order over no coordinates or the sequential order.
  The dimension \<open>2^53 + 1\<close> is rounded to \<open>2^53\<close> when it is converted to \<open>double\<close> and is
  accepted as well.
\<close>

theorem get_multiply_order_accepts_non_power_of_two:
  "get_multiply_order True fp h 0 0 = (Some (Hilbert_exec_order 0 []), [])
   \<and> get_multiply_order False fp h 0 0 = (Some Seq_exec_order, [])
   \<and> (\<nexists>k. (0::nat) = 2 ^ k)
   \<and> get_multiply_order False fp h (2 ^ 53 + 1) (2 ^ 53 + 1) = (Some Seq_exec_order, [])
   \<and> (\<nexists>k. (2::nat) ^ 53 + 1 = 2 ^ k)"
proof -
  have z: "log2_is_integral fp 0"
    by (simp add: log2_is_integral_def double_of_nat_def bitlen.simps)
  have p: "is_pow2 (2 ^ 53)" by (simp only: is_pow2_iff) blast
  have b: "log2_is_integral fp (2 ^ 53 + 1)"
    by (simp only: log2_is_integral_def Let_def double_of_nat_rounds p if_True if_cancel)
  have n: "\<nexists>k. (2::nat) ^ 53 + 1 = 2 ^ k"
  proof
    assume "\<exists>k. (2::nat) ^ 53 + 1 = 2 ^ k"
    then obtain k where k: "(2::nat) ^ 53 + 1 = 2 ^ k" ..
    have "odd ((2::nat) ^ 53 + 1)" by simp
    with k have "odd ((2::nat) ^ k)" by simp
    then have "k = 0" by (cases k) simp_all
    with k show False by simp
  qed
  from z b n show ?thesis
    by (simp add: get_multiply_order_def hilbert_exec_order_def hilbert_orders_unsorted_def)
qed

section \<open>Results: a deleted vertex stays as it is\<close>

lemma deleted_callbacks:
  assumes "is_deleted v"
  shows "run_on_message v = v" and "\<not> run K v" and "run_on_vertex K pv v = (v, [])"
  using assms by (simp_all add: run_on_message_def run_def run_on_vertex_def)

lemma deliver_length: "length (deliver vs msgs) = length vs"
  unfolding deliver_def by (induction msgs arbitrary: vs) simp_all

lemma deliver_deleted:
  "x < length vs \<Longrightarrow> is_deleted (vs ! x) \<Longrightarrow> deliver vs msgs ! x = vs ! x"
  unfolding deliver_def
proof (induction msgs arbitrary: vs)
  case Nil
  then show ?case by simp
next
  case (Cons d msgs)
  let ?vs = "if d < length vs then vs[d := run_on_message (vs ! d)] else vs"
  have l: "x < length ?vs" using Cons.prems by simp
  have e: "?vs ! x = vs ! x"
    using Cons.prems by (cases "d = x") (simp_all add: deleted_callbacks)
  from Cons.IH [OF l] e Cons.prems show ?case by simp
qed

lemma run_active_length: "length (fst (run_active K g act vs)) = length vs"
  by (induction act arbitrary: vs) (simp_all add: Let_def)

lemma run_active_deleted:
  "x < length vs \<Longrightarrow> is_deleted (vs ! x) \<Longrightarrow> fst (run_active K g act vs) ! x = vs ! x"
proof (induction act arbitrary: vs)
  case Nil
  then show ?case by simp
next
  case (Cons v act)
  show ?case
  proof (cases "v < length vs \<and> v < length (adj g) \<and> run K (vs ! v)")
    case True
    with Cons.prems have ne: "v \<noteq> x" by (auto simp: deleted_callbacks)
    let ?vs = "vs[v := fst (run_on_vertex K (adj g ! v) (vs ! v))]"
    have "x < length ?vs" "is_deleted (?vs ! x)" using Cons.prems ne by simp_all
    from Cons.IH [OF this] True ne show ?thesis by (simp add: Let_def)
  next
    case False
    with Cons show ?thesis by auto
  qed
qed

lemma level_step_deleted:
  assumes "x < length (vertices st)" "is_deleted (vertices st ! x)"
  shows "vertices (level_step K g st) ! x = vertices st ! x"
    and "length (vertices (level_step K g st)) = length (vertices st)"
proof -
  let ?vs1 = "deliver (vertices st) (inbox st)"
  have 1: "x < length ?vs1" "?vs1 ! x = vertices st ! x"
    using assms by (simp_all add: deliver_length deliver_deleted)
  then have "is_deleted (?vs1 ! x)" using assms by simp
  from run_active_deleted [OF 1(1) this] 1
  show "vertices (level_step K g st) ! x = vertices st ! x"
    by (simp add: level_step_def Let_def)
  show "length (vertices (level_step K g st)) = length (vertices st)"
    by (simp add: level_step_def Let_def run_active_length deliver_length)
qed

lemma wait4complete_deleted:
  "x < length (vertices st) \<Longrightarrow> is_deleted (vertices st ! x) \<Longrightarrow>
   wait4complete fuel K g st = Some vs' \<Longrightarrow> vs' ! x = vertices st ! x"
proof (induction fuel arbitrary: st)
  case 0
  then show ?case by simp
next
  case (Suc fuel)
  show ?case
  proof (cases "active st = []")
    case True
    with Suc.prems show ?thesis by simp
  next
    case False
    with Suc.prems have w: "wait4complete fuel K g (level_step K g st) = Some vs'" by simp
    have "x < length (vertices (level_step K g st))"
      "is_deleted (vertices (level_step K g st) ! x)"
      using level_step_deleted [OF Suc.prems(1,2)] Suc.prems by simp_all
    from Suc.IH [OF this w] level_step_deleted(1) [OF Suc.prems(1,2)] show ?thesis by simp
  qed
qed


lemma self_loop_degree:
  assumes "x < n"
  shows "degree (new_kcore_vertex (graph_of_edges hdr n ((x, x) # es)) x)
       = degree (new_kcore_vertex (graph_of_edges hdr n es) x) + 1"
    and "out_neighs (adj (graph_of_edges hdr n ((x, x) # es)) ! x)
       = x # out_neighs (adj (graph_of_edges hdr n es) ! x)"
    and "in_neighs (adj (graph_of_edges hdr n ((x, x) # es)) ! x)
       = in_neighs (adj (graph_of_edges hdr n es) ! x)"
  using assms
  by (simp_all add: new_kcore_vertex_def graph_of_edges_def page_vertex_info_def edges_page_vertex_def)

text \<open>
  C8.  A deleted vertex is terminal: \<open>run_on_message\<close> leaves it unchanged (in particular
  its degree), \<open>run(prog)\<close> requests nothing and \<open>run(prog, vertex)\<close> changes nothing and
  sends nothing; through a whole level and through the rest of a run of the engine its
  state stays the same.  A vertex with a self-loop that is deleted sends the delete
  message to itself as well and ignores it: its degree is not decremented.  Its degree
  counted the self-loop once.
\<close>

theorem deleted_vertex_is_terminal:
  "(is_deleted v \<longrightarrow> run_on_message v = v \<and> \<not> run K v \<and> run_on_vertex K pv v = (v, []))
   \<and> (x < length (vertices st) \<and> is_deleted (vertices st ! x) \<longrightarrow>
        vertices (level_step K g st) ! x = vertices st ! x
        \<and> (\<forall>fuel vs'. wait4complete fuel K g st = Some vs' \<longrightarrow> vs' ! x = vertices st ! x))
   \<and> (\<not> is_deleted v \<and> get_degree v < K
        \<and> vid v \<in> set (in_neighs pv) \<union> set (out_neighs pv) \<longrightarrow>
        vid v \<in> set (snd (run_on_vertex K pv v))
        \<and> is_deleted (fst (run_on_vertex K pv v))
        \<and> run_on_message (fst (run_on_vertex K pv v)) = fst (run_on_vertex K pv v)
        \<and> degree (fst (run_on_vertex K pv v)) = degree v)
   \<and> (x < n \<longrightarrow> degree (new_kcore_vertex (graph_of_edges hdr n ((x, x) # es)) x)
               = degree (new_kcore_vertex (graph_of_edges hdr n es) x) + 1)"
proof -
  have a: "is_deleted v \<longrightarrow> run_on_message v = v \<and> \<not> run K v \<and> run_on_vertex K pv v = (v, [])"
    by (simp add: deleted_callbacks)
  have b: "x < length (vertices st) \<and> is_deleted (vertices st ! x) \<longrightarrow>
        vertices (level_step K g st) ! x = vertices st ! x
        \<and> (\<forall>fuel vs'. wait4complete fuel K g st = Some vs' \<longrightarrow> vs' ! x = vertices st ! x)"
    using level_step_deleted(1) wait4complete_deleted by blast
  have c: "\<not> is_deleted v \<and> get_degree v < K
        \<and> vid v \<in> set (in_neighs pv) \<union> set (out_neighs pv) \<longrightarrow>
        vid v \<in> set (snd (run_on_vertex K pv v))
        \<and> is_deleted (fst (run_on_vertex K pv v))
        \<and> run_on_message (fst (run_on_vertex K pv v)) = fst (run_on_vertex K pv v)
        \<and> degree (fst (run_on_vertex K pv v)) = degree v"
    by (auto simp: run_on_vertex_def multicast_delete_msg_def delete_def is_deleted_def
        run_on_message_def)
  have d: "x < n \<longrightarrow> degree (new_kcore_vertex (graph_of_edges hdr n ((x, x) # es)) x)
               = degree (new_kcore_vertex (graph_of_edges hdr n es) x) + 1"
    by (simp add: self_loop_degree)
  from a b c d show ?thesis by blast
qed

theorem deleted_vertex_is_terminal_witness:
  "is_deleted \<lparr>vid = 0, num_in_edges = 0, deleted = True, degree = 1\<rparr>
   \<and> run_on_message \<lparr>vid = 0, num_in_edges = 0, deleted = True, degree = 1\<rparr>
       = \<lparr>vid = 0, num_in_edges = 0, deleted = True, degree = 1\<rparr>
   \<and> (0::nat) < length (vertices \<lparr>vertices = [\<lparr>vid = 0, num_in_edges = 0, deleted = True, degree = 1\<rparr>],
                                  active = [0], inbox = [0]\<rparr>)
   \<and> vertices (level_step 3 (graph_of_edges 16 1 [(0, 0)])
         \<lparr>vertices = [\<lparr>vid = 0, num_in_edges = 0, deleted = True, degree = 1\<rparr>],
          active = [0], inbox = [0]\<rparr>) ! 0
       = \<lparr>vid = 0, num_in_edges = 0, deleted = True, degree = 1\<rparr>
   \<and> adj (graph_of_edges 16 1 [(0, 0)]) ! 0 = \<lparr>in_neighs = [], out_neighs = [0]\<rparr>
   \<and> new_kcore_vertex (graph_of_edges 16 1 [(0, 0)]) 0
       = \<lparr>vid = 0, num_in_edges = 0, deleted = False, degree = 1\<rparr>
   \<and> run_on_vertex 3 \<lparr>in_neighs = [], out_neighs = [0]\<rparr>
        \<lparr>vid = 0, num_in_edges = 0, deleted = False, degree = 1\<rparr>
       = (\<lparr>vid = 0, num_in_edges = 0, deleted = True, degree = 1\<rparr>, [0])
   \<and> run_on_message (fst (run_on_vertex 3 \<lparr>in_neighs = [], out_neighs = [0]\<rparr>
          \<lparr>vid = 0, num_in_edges = 0, deleted = False, degree = 1\<rparr>))
       = fst (run_on_vertex 3 \<lparr>in_neighs = [], out_neighs = [0]\<rparr>
          \<lparr>vid = 0, num_in_edges = 0, deleted = False, degree = 1\<rparr>)
   \<and> (0::nat) < 1
   \<and> degree (new_kcore_vertex (graph_of_edges 16 1 [(0, 0)]) 0)
       = degree (new_kcore_vertex (graph_of_edges 16 1 []) 0) + 1
   \<and> peel 10 (graph_of_edges 16 1 [(0, 0)]) 3 [new_kcore_vertex (graph_of_edges 16 1 [(0, 0)]) 0]
       = Some [\<lparr>vid = 0, num_in_edges = 0, deleted = True, degree = 1\<rparr>]"
proof -
  let ?dv = "\<lparr>vid = 0, num_in_edges = 0, deleted = True, degree = 1\<rparr>"
  let ?v0 = "\<lparr>vid = 0, num_in_edges = 0, deleted = False, degree = 1\<rparr>"
  let ?st = "\<lparr>vertices = [?dv], active = [0], inbox = [0]\<rparr>"
  let ?g = "graph_of_edges 16 1 [(0, 0)]"
  let ?pv = "\<lparr>in_neighs = [], out_neighs = [0]\<rparr>"
  have h1: "is_deleted ?dv" by (simp add: is_deleted_def)
  have h2: "0 < length (vertices ?st) \<and> is_deleted (vertices ?st ! 0)"
    by (simp add: is_deleted_def)
  have h3: "\<not> is_deleted ?v0 \<and> get_degree ?v0 < 3
      \<and> vid ?v0 \<in> set (in_neighs ?pv) \<union> set (out_neighs ?pv)"
    by (simp add: is_deleted_def get_degree_def)
  have h4: "(0::nat) < 1" by simp
  have e1: "adj ?g ! 0 = ?pv" by code_simp
  have e2: "new_kcore_vertex ?g 0 = ?v0" by code_simp
  have e3: "run_on_vertex 3 ?pv ?v0 = (?dv, [0])" by code_simp
  have e4: "peel 10 ?g 3 [new_kcore_vertex ?g 0] = Some [?dv]" by code_simp
  note t1 = deleted_vertex_is_terminal
    [where v = ?dv and pv = ?pv and x = 0 and st = ?st and K = 3 and g = ?g and n = 1
       and hdr = 16 and es = "[]"]
  note t2 = deleted_vertex_is_terminal
    [where v = ?v0 and pv = ?pv and x = 0 and st = ?st and K = 3
       and g = ?g and n = 1 and hdr = 16 and es = "[]"]
  from t1 h1 have c1: "run_on_message ?dv = ?dv" by blast
  from t1 h2 have c2: "vertices (level_step 3 ?g ?st) ! 0 = ?dv" by simp
  from t2 h3 have c3: "run_on_message (fst (run_on_vertex 3 ?pv ?v0))
       = fst (run_on_vertex 3 ?pv ?v0)" by blast
  from t1 h4 have c4: "degree (new_kcore_vertex ?g 0)
       = degree (new_kcore_vertex (graph_of_edges 16 1 []) 0) + 1" by blast
  from h1 h2 h4 c1 c2 c3 c4 e1 e2 e3 e4 show ?thesis by blast
qed

section \<open>Results: the engine completes\<close>

text \<open>Every level that sends a message deletes a vertex, and no vertex comes back, so
  the levels of one peel end: two more levels than there are vertices always suffice,
  for every peel of the command.\<close>

lemma finite_alive: "finite (alive vs)"
  by (simp add: alive_def)

lemma alive_le_length: "card (alive vs) \<le> length vs"
proof -
  have "alive vs \<subseteq> {..<length vs}" by (auto simp: alive_def)
  then have "card (alive vs) \<le> card {..<length vs}" by (intro card_mono) simp_all
  then show ?thesis by simp
qed

lemma is_deleted_run_on_message: "is_deleted (run_on_message v) = is_deleted v"
  by (simp add: run_on_message_def is_deleted_def)

lemma deliver_alive: "alive (deliver vs msgs) = alive vs"
  unfolding deliver_def
proof (induction msgs arbitrary: vs)
  case Nil
  then show ?case by simp
next
  case (Cons d msgs)
  let ?vs = "if d < length vs then vs[d := run_on_message (vs ! d)] else vs"
  have "alive ?vs = alive vs"
    by (auto simp: alive_def nth_list_update is_deleted_run_on_message)
  with Cons.IH [of ?vs] show ?case by simp
qed

lemma run_on_vertex_alive:
  assumes "v < length vs"
  shows "alive (vs[v := fst (run_on_vertex K pv (vs ! v))]) \<subseteq> alive vs"
    and "snd (run_on_vertex K pv (vs ! v)) \<noteq> [] \<Longrightarrow>
         alive (vs[v := fst (run_on_vertex K pv (vs ! v))]) \<subset> alive vs"
proof -
  show "alive (vs[v := fst (run_on_vertex K pv (vs ! v))]) \<subseteq> alive vs"
    using assms
    by (auto simp: alive_def nth_list_update run_on_vertex_def delete_def is_deleted_def
        split: if_splits)
  assume "snd (run_on_vertex K pv (vs ! v)) \<noteq> []"
  then have d: "\<not> is_deleted (vs ! v)" "is_deleted (fst (run_on_vertex K pv (vs ! v)))"
    by (auto simp: run_on_vertex_def delete_def is_deleted_def split: if_splits)
  then have "v \<in> alive vs" "v \<notin> alive (vs[v := fst (run_on_vertex K pv (vs ! v))])"
    using assms by (simp_all add: alive_def)
  with \<open>alive (vs[v := fst (run_on_vertex K pv (vs ! v))]) \<subseteq> alive vs\<close>
  show "alive (vs[v := fst (run_on_vertex K pv (vs ! v))]) \<subset> alive vs" by blast
qed

lemma run_active_alive:
  "alive (fst (run_active K g act vs)) \<subseteq> alive vs
   \<and> (snd (run_active K g act vs) \<noteq> [] \<longrightarrow> alive (fst (run_active K g act vs)) \<subset> alive vs)"
proof (induction act arbitrary: vs)
  case Nil
  then show ?case by simp
next
  case (Cons v act)
  show ?case
  proof (cases "v < length vs \<and> v < length (adj g) \<and> run K (vs ! v)")
    case True
    let ?r = "run_on_vertex K (adj g ! v) (vs ! v)"
    let ?vs = "vs[v := fst ?r]"
    from True have v: "v < length vs" by simp
    note a = run_on_vertex_alive [OF v, of K "adj g ! v"]
    note ih = Cons.IH [of ?vs]
    have e: "run_active K g (v # act) vs
        = (fst (run_active K g act ?vs), snd ?r @ snd (run_active K g act ?vs))"
      using True by (simp add: Let_def)
    show ?thesis
      unfolding e using a ih by (cases "snd ?r = []") auto
  next
    case False
    with Cons.IH [of vs] show ?thesis by auto
  qed
qed

lemma level_step_alive:
  "alive (vertices (level_step K g st)) \<subseteq> alive (vertices st)"
  "active (level_step K g st) \<noteq> [] \<Longrightarrow> alive (vertices (level_step K g st)) \<subset> alive (vertices st)"
  using run_active_alive [of K g "active st" "deliver (vertices st) (inbox st)"]
  by (simp_all add: level_step_def Let_def deliver_alive)

lemma wait4complete_enough_fuel:
  "card (alive (vertices st)) \<le> n \<Longrightarrow> wait4complete (n + 2) K g st \<noteq> None"
proof (induction n arbitrary: st)
  case 0
  show ?case
  proof (cases "active st = []")
    case True
    then show ?thesis by (simp add: eval_nat_numeral)
  next
    case False
    have "active (level_step K g st) = []"
    proof (rule ccontr)
      assume "active (level_step K g st) \<noteq> []"
      then have "alive (vertices (level_step K g st)) \<subset> alive (vertices st)"
        by (rule level_step_alive(2))
      then have "card (alive (vertices (level_step K g st))) < card (alive (vertices st))"
        by (intro psubset_card_mono finite_alive)
      with 0 show False by simp
    qed
    with False show ?thesis by (simp add: eval_nat_numeral)
  qed
next
  case (Suc n)
  show ?case
  proof (cases "active st = []")
    case True
    then show ?thesis by simp
  next
    case False
    let ?st = "level_step K g st"
    have w: "wait4complete (Suc n + 2) K g st = wait4complete (n + 2) K g ?st"
      using False by simp
    show ?thesis
    proof (cases "active ?st = []")
      case True
      then have "wait4complete (n + 2) K g ?st = Some (vertices ?st)"
        by (simp add: eval_nat_numeral)
      with w show ?thesis by simp
    next
      case False
      then have "alive (vertices ?st) \<subset> alive (vertices st)" by (rule level_step_alive(2))
      then have "card (alive (vertices ?st)) < card (alive (vertices st))"
        by (intro psubset_card_mono finite_alive)
      with Suc.prems have "card (alive (vertices ?st)) \<le> n" by simp
      from Suc.IH [OF this] w show ?thesis by simp
    qed
  qed
qed

lemma peel_terminates: "\<exists>vs'. peel (length vs + 2) g K vs = Some vs'"
proof -
  have "card (alive (vertices (start (activate_k_filter_keep g K) vs))) \<le> length vs"
    using alive_le_length [of vs] by (simp add: start_def)
  from wait4complete_enough_fuel [OF this] show ?thesis by (simp add: peel_def)
qed


lemma level_step_length: "length (vertices (level_step K g st)) = length (vertices st)"
  by (simp add: level_step_def Let_def run_active_length deliver_length)

lemma wait4complete_length:
  "wait4complete fuel K g st = Some vs' \<Longrightarrow> length vs' = length (vertices st)"
proof (induction fuel arbitrary: st)
  case 0
  then show ?case by simp
next
  case (Suc fuel)
  show ?case
  proof (cases "active st = []")
    case True
    with Suc.prems show ?thesis by simp
  next
    case False
    with Suc.prems have "wait4complete fuel K g (level_step K g st) = Some vs'" by simp
    from Suc.IH [OF this] show ?thesis by (simp add: level_step_length)
  qed
qed

lemma peel_total: "\<exists>vs'. peel (length vs + 2) g K vs = Some vs' \<and> length vs' = length vs"
proof -
  from peel_terminates obtain vs' where p: "peel (length vs + 2) g K vs = Some vs'" by blast
  then have "wait4complete (length vs + 2) K g (start (activate_k_filter_keep g K) vs) = Some vs'"
    by (simp only: peel_def)
  then have "length vs' = length (vertices (start (activate_k_filter_keep g K) vs))"
    by (rule wait4complete_length)
  then have "length vs' = length vs" by (simp add: start_def)
  with p show ?thesis by blast
qed

lemma kcore_rounds_total: "\<exists>lines. kcore_rounds (length vs + 2) g parts Ks vs = Some lines"
proof (induction Ks arbitrary: vs)
  case Nil
  then show ?case by simp
next
  case (Cons K Ks)
  from peel_total obtain vs' where p: "peel (length vs + 2) g K vs = Some vs'"
    and l: "length vs' = length vs" by blast
  from Cons.IH [of vs'] l obtain lines
    where "kcore_rounds (length vs + 2) g parts Ks vs' = Some lines" by auto
  with p show ?case by (simp add: Let_def)
qed

section \<open>Results: the maximal degree query\<close>

text \<open>With workers that partition the vertices, the query reports the maximum over all
  vertices of \<open>get_vertex_edges\<close>; this is the maximal number of in- plus out-edges when
  every vertex occupies exactly its header and 4 bytes per edge.  When \<open>kmax\<close> is omitted,
  \<open>main\<close> runs with the result of the query as \<open>kmax\<close>.\<close>

lemma max_degree_query_run_max:
  "max_degree_query_run g m v = max m (get_vertex_edges g (vid v))"
  by (auto simp: max_degree_query_run_def max_def)

lemma max_degree_query_merge_max: "max_degree_query_merge m other = max m other"
  by (auto simp: max_degree_query_merge_def max_def)

lemma foldl_max_run:
  "foldl (max_degree_query_run g) m vs = foldl max m (map (\<lambda>v. get_vertex_edges g (vid v)) vs)"
  by (induction vs arbitrary: m) (simp_all add: max_degree_query_run_max)

lemma foldl_max_zero: "foldl max (a :: vsize_t) xs = max a (foldl max 0 xs)"
proof (induction xs arbitrary: a)
  case Nil
  then show ?case by (simp add: max_def)
next
  case (Cons x xs)
  have "foldl max (max a x) xs = max (max a x) (foldl max 0 xs)" by (rule Cons.IH)
  moreover have "foldl max (max 0 x) xs = max (max 0 x) (foldl max 0 xs)" by (rule Cons.IH)
  moreover have "max 0 x = x" by (simp add: max_def)
  ultimately show ?case by (simp add: max.assoc)
qed

lemma foldl_merge_parts:
  "foldl max_degree_query_merge (m :: vsize_t)
       (map (foldl (max_degree_query_run g) 0) parts)
     = foldl max m (map (\<lambda>v. get_vertex_edges g (vid v)) (concat parts))"
proof (induction parts arbitrary: m)
  case Nil
  then show ?case by simp
next
  case (Cons p parts)
  have "max m (foldl max 0 (map (\<lambda>v. get_vertex_edges g (vid v)) p))
      = foldl max m (map (\<lambda>v. get_vertex_edges g (vid v)) p)"
    by (rule foldl_max_zero [symmetric])
  with Cons show ?case
    by (simp add: max_degree_query_merge_max foldl_max_run)
qed

lemma foldl_max_Max: "foldl max (a :: vsize_t) xs = Max (insert a (set xs))"
proof -
  have "foldl max a xs = fold max xs a"
    by (simp add: foldl_conv_fold max.commute)
  also have "\<dots> = Max (set (a # xs))" by (rule Max.set_eq_fold [symmetric])
  finally show ?thesis by simp
qed

lemma query_max_degree_Max:
  assumes "mset (concat parts) = mset [0..<length (index g)]"
  shows "query_max_degree g parts (map (new_kcore_vertex g) [0..<length (index g)])
       = Max (insert 0 (get_vertex_edges g ` {..<length (index g)}))"
proof -
  let ?n = "length (index g)"
  let ?vs = "map (new_kcore_vertex g) [0..<?n]"
  let ?f = "\<lambda>v. get_vertex_edges g (vid v)"
  have s: "set (concat parts) = {..<?n}"
    using mset_eq_setD [OF assms] by auto
  have "set (map ?f (concat (worker_vertices parts ?vs)))
      = (\<lambda>v. ?f (?vs ! v)) ` set (concat parts)"
    by (simp add: worker_vertices_def map_concat comp_def image_UN image_image)
  also have "\<dots> = get_vertex_edges g ` {..<?n}"
    unfolding s by (rule image_cong) (simp_all add: new_kcore_vertex_def)
  finally have "set (map ?f (concat (worker_vertices parts ?vs))) = get_vertex_edges g ` {..<?n}" .
  then show ?thesis
    by (simp only: query_max_degree_def query_on_all_def foldl_merge_parts foldl_max_Max)
qed

lemma get_vertex_edges_layout:
  assumes "v < length (index g)"
    and "unat (ext_mem_size (index g ! v))
           = unat (vertex_header_size g) + 4 * (unat (num_in (index g ! v)) + unat (num_out (index g ! v)))"
  shows "get_vertex_edges g v = num_in (index g ! v) + num_out (index g ! v)"
proof -
  let ?s = "ext_mem_size (index g ! v)" and ?h = "vertex_header_size g"
  let ?a = "num_in (index g ! v)" and ?b = "num_out (index g ! v)"
  have le: "?h \<le> ?s" using assms(2) by (simp add: word_le_nat_alt)
  have "unat (?s - ?h) = unat ?s - unat ?h" using le by (rule unat_sub)
  then have d: "unat (?s - ?h) = 4 * (unat ?a + unat ?b)" using assms(2) by simp
  have "unat ((?s - ?h) div 4) = unat (?s - ?h) div 4" by (simp add: unat_div)
  then have e: "unat ((?s - ?h) div 4) = unat ?a + unat ?b" using d by simp
  have "unat ?s < 2 ^ 32" using unsigned_less [of ?s] by simp
  then have "unat ?a + unat ?b < 2 ^ 32" using assms(2) by simp
  then have "unat (?a + ?b) = unat ?a + unat ?b" by (simp add: unat_word_ariths)
  with e have "unat ((?s - ?h) div 4) = unat (?a + ?b)" by simp
  then have "(?s - ?h) div 4 = ?a + ?b" by (rule word_unat_eq_iff [THEN iffD2])
  then show ?thesis by (simp add: get_vertex_edges_def Let_def)
qed



lemma query_max_degree_in_out:
  assumes "mset (concat parts) = mset [0..<length (index g)]"
    and "\<forall>v < length (index g).
              unat (ext_mem_size (index g ! v))
                = unat (vertex_header_size g)
                  + 4 * (unat (num_in (index g ! v)) + unat (num_out (index g ! v)))"
  shows "query_max_degree g parts (map (new_kcore_vertex g) [0..<length (index g)])
           = Max (insert 0 ((\<lambda>v. num_in (index g ! v) + num_out (index g ! v))
                                ` {..<length (index g)}))"
proof -
  have "get_vertex_edges g ` {..<length (index g)}
      = (\<lambda>v. num_in (index g ! v) + num_out (index g ! v)) ` {..<length (index g)}"
    by (rule image_cong) (simp_all add: get_vertex_edges_layout assms(2))
  with query_max_degree_Max [OF assms(1)] show ?thesis by simp
qed

lemma main_kmax_omitted:
  assumes "length args = 4"
    and "query_max_degree g parts (map (new_kcore_vertex g) [0..<length (index g)]) \<noteq> - 1"
  shows "\<exists>lines. main (length (index g) + 2) g parts args
           = Some (Completed
               (query_max_degree g parts (map (new_kcore_vertex g) [0..<length (index g)])) lines)"
proof -
  let ?vs = "map (new_kcore_vertex g) [0..<length (index g)]"
  let ?kmax = "query_max_degree g parts ?vs"
  let ?kmin = "word_of_int (atol (args ! 3)) :: vsize_t"
  from assms(2) obtain Ks where k: "k_values ?kmin ?kmax = Some Ks"
    by (auto simp: k_values_def)
  from kcore_rounds_total [of ?vs g parts Ks] obtain lines
    where "kcore_rounds (length (index g) + 2) g parts Ks ?vs = Some lines" by auto
  with k assms(1) show ?thesis by (simp add: main_def Let_def)
qed

text \<open>
  C3.  \<open>max_degree_query\<close> takes the number of edges of a vertex from \<open>get_vertex_edges\<close>,
  which divides the bytes the vertex occupies beyond its header by the size of a vertex
  id.  On the graph \<open>E_attr\<close>, whose edge carries an attribute, every vertex has one edge
  (in plus out), the query reports 2, and \<open>main\<close> without a \<open>kmax\<close> runs up to \<open>k = 2\<close>:
  the result is not the maximum of \<open>in_edges(v) + out_edges(v)\<close>.
\<close>

theorem max_degree_query_counts_edge_data:
  "query_max_degree E_attr [[0], [1]] (map (new_kcore_vertex E_attr) [0..<2]) = 2
   \<and> map (\<lambda>info. num_in info + num_out info) (index E_attr) = [1, 1]
   \<and> main 10 E_attr [[0], [1]] [''conf'', ''graph'', ''index'', ''1'']
       = Some (Completed 2 [(1, 0), (2, 0)])"
  by code_simp


section \<open>Results: k-core on the graph E1\<close>

lemma count_run_fold:
  "foldl count_vertex_query_run num vs = num + length (filter is_deleted vs)"
  by (induction vs arbitrary: num) (simp_all add: count_vertex_query_run_def)

lemma count_merge_fold:
  "foldl count_vertex_query_merge num (map (foldl count_vertex_query_run 0) parts)
     = num + length (filter is_deleted (concat parts))"
  by (induction parts arbitrary: num) (simp_all add: count_vertex_query_merge_def count_run_fold)

lemma count_deleted_partition:
  assumes "mset (concat parts) = mset [0..<length vs]"
  shows "count_deleted parts vs = length (filter is_deleted vs)"
proof -
  have c: "concat (worker_vertices parts vs) = map (\<lambda>v. vs ! v) (concat parts)"
    by (simp add: worker_vertices_def map_concat)
  have "mset (map (\<lambda>v. vs ! v) (concat parts)) = mset vs"
    using assms by (rule mset_map_nth_perm)
  then have "mset (filter is_deleted (concat (worker_vertices parts vs))) = mset (filter is_deleted vs)"
    by (simp add: c del: mset_map)
  then have "length (filter is_deleted (concat (worker_vertices parts vs))) = length (filter is_deleted vs)"
    by (rule mset_eq_length)
  then show ?thesis
    by (simp add: count_deleted_def query_on_all_def count_merge_fold)
qed

lemma kcore_rounds_line:
  assumes "kcore_rounds fuel g parts (K # Ks) vs = Some (line # lines)"
  shows "\<exists>vs'. peel fuel g K vs = Some vs' \<and> line = (K, count_deleted parts vs')
            \<and> kcore_rounds fuel g parts Ks vs' = Some lines"
  using assms by (auto simp: Let_def split: option.splits)

text \<open>
  C2.  On the graph E1 (degrees 2, 2, 3, 3, 2, 2) the peel with \<open>k = 3\<close> deletes the
  vertices 0, 1, 4 and 5 in the first level; the engine completes with all six vertices
  deleted (2 and 3 with degree 1), no vertex survives, and \<open>count_vertex_query\<close> run
  afterwards reports 6.
\<close>

theorem E1_peel_k3_deletes_all:
  "map degree (map (new_kcore_vertex E1) [0..<6]) = [2, 2, 3, 3, 2, 2]
   \<and> map deleted (vertices (level_step 3 E1
        (start (activate_k_filter_keep E1 3) (map (new_kcore_vertex E1) [0..<6]))))
       = [True, True, False, False, True, True]
   \<and> peel 10 E1 3 (map (new_kcore_vertex E1) [0..<6])
       = Some [\<lparr>vid = 0, num_in_edges = 1, deleted = True, degree = 2\<rparr>,
               \<lparr>vid = 1, num_in_edges = 1, deleted = True, degree = 2\<rparr>,
               \<lparr>vid = 2, num_in_edges = 1, deleted = True, degree = 1\<rparr>,
               \<lparr>vid = 3, num_in_edges = 2, deleted = True, degree = 1\<rparr>,
               \<lparr>vid = 4, num_in_edges = 1, deleted = True, degree = 2\<rparr>,
               \<lparr>vid = 5, num_in_edges = 1, deleted = True, degree = 2\<rparr>]
   \<and> filter (\<lambda>v. \<not> is_deleted v)
        [\<lparr>vid = 0, num_in_edges = 1, deleted = True, degree = 2\<rparr>,
         \<lparr>vid = 1, num_in_edges = 1, deleted = True, degree = 2\<rparr>,
         \<lparr>vid = 2, num_in_edges = 1, deleted = True, degree = 1\<rparr>,
         \<lparr>vid = 3, num_in_edges = 2, deleted = True, degree = 1\<rparr>,
         \<lparr>vid = 4, num_in_edges = 1, deleted = True, degree = 2\<rparr>,
         \<lparr>vid = 5, num_in_edges = 1, deleted = True, degree = 2\<rparr>] = []
   \<and> count_deleted [[0, 1, 2], [3, 4, 5]]
        [\<lparr>vid = 0, num_in_edges = 1, deleted = True, degree = 2\<rparr>,
         \<lparr>vid = 1, num_in_edges = 1, deleted = True, degree = 2\<rparr>,
         \<lparr>vid = 2, num_in_edges = 1, deleted = True, degree = 1\<rparr>,
         \<lparr>vid = 3, num_in_edges = 2, deleted = True, degree = 1\<rparr>,
         \<lparr>vid = 4, num_in_edges = 1, deleted = True, degree = 2\<rparr>,
         \<lparr>vid = 5, num_in_edges = 1, deleted = True, degree = 2\<rparr>] = 6"
  by code_simp

section \<open>Results: what the k-core command prints and accepts\<close>

text \<open>
  C1.  The number \<open>main\<close> prints for each \<open>k\<close> is the result of \<open>count_vertex_query\<close>,
  which counts the vertices with \<open>is_deleted()\<close>.  On E1 with \<open>kmin = 2\<close> and \<open>kmax = 3\<close>
  the two result lines report 0 and 6: after the peel for \<open>k = 2\<close> no vertex is deleted
  and all 6 are alive, after the peel for \<open>k = 3\<close> all 6 are deleted and none is alive.
  The reported number is the number of deleted vertices, not the number still alive.
\<close>

theorem kcore_main_prints_deleted_count:
  "main 10 E1 [[0, 1, 2], [3, 4, 5]] [''conf'', ''graph'', ''index'', ''2'', ''3'']
     = Some (Completed 3 [(2, 0), (3, 6)])
   \<and> peel 10 E1 2 (map (new_kcore_vertex E1) [0..<6]) = Some (map (new_kcore_vertex E1) [0..<6])
   \<and> length (filter (\<lambda>v. \<not> is_deleted v) (map (new_kcore_vertex E1) [0..<6])) = 6
   \<and> length (filter is_deleted (map (new_kcore_vertex E1) [0..<6])) = 0"
  by code_simp

lemma main_never_rejects_kmin:
  assumes "4 \<le> length args"
  shows "main fuel g parts args \<noteq> Some (Exit c)"
  using assms by (auto simp: main_def Let_def split: option.splits)

text \<open>
  C6.  \<open>main\<close> of k\_core.cpp only rejects a command line with fewer than four positional
  arguments.  With \<open>kmin = 1\<close>, or with \<open>kmin = 0\<close>, it creates the engine and runs a peel
  for every \<open>k\<close> from \<open>kmin\<close> on; \<open>run_kcore\<close> of test\_algs.cpp, given the same \<open>k = 1\<close>,
  prints an error and exits with -1.
\<close>

theorem kcore_main_accepts_small_kmin:
  "main 10 E1 [[0, 1, 2], [3, 4, 5]] [''conf'', ''graph'', ''index'', ''1'']
     = Some (Completed 3 [(1, 0), (2, 0), (3, 6)])
   \<and> main 10 E1 [[0, 1, 2], [3, 4, 5]] [''conf'', ''graph'', ''index'', ''0'', ''1'']
     = Some (Completed 1 [(0, 0), (1, 0)])
   \<and> main 10 E1 [[0, 1, 2], [3, 4, 5]] [''conf'', ''graph'', ''index''] = Some (Exit (- 1))
   \<and> run_kcore 1 0 True = Kcore_exit (- 1) [''[Error]: kmin cannot be < 2'']"
  by code_simp



end
